theory Spec2Isabelle
  imports Main "HOL-Library.Word"
begin

section \<open>Debug support code of lib/debug.cpp\<close>

text \<open>
  A shallow embedding of \<^verbatim>\<open>source/lib/debug.cpp\<close>: the tag filter, the in-memory
  activity log, the symbol description cache and the error reporter. Global variables of
  the source become fields of state records that every operation takes and returns.
  Functions declared elsewhere (\<^verbatim>\<open>fnv_hash\<close>, \<^verbatim>\<open>path_name_only\<close>, the \<^verbatim>\<open>ah_*\<close> and
  \<^verbatim>\<open>sys_*\<close> hooks, the debug-info resolver, ...) are parameters.
\<close>

type_synonym u8 = "8 word"
type_synonym u32 = "32 word"

subsection \<open>Tag filter\<close>

text \<open>
  \<^verbatim>\<open>static const uint MAX_TAGS = 20; static u32 tags[MAX_TAGS]; static uint num_tags;\<close>
  The array always has \<open>MAX_TAGS\<close> elements; \<open>num_tags\<close> is an unsigned 32-bit counter,
  so \<^verbatim>\<open>num_tags--\<close> wraps at zero.
\<close>

definition MAX_TAGS :: nat where
  "MAX_TAGS = 20"

record tag_filter =
  tags :: "u32 list"
  num_tags :: u32

definition tag_filter_init :: tag_filter where
  "tag_filter_init = \<lparr>tags = replicate MAX_TAGS 0, num_tags = 0\<rparr>"

text \<open>
  The loop \<^verbatim>\<open>for(uint i = 0; i < MAX_TAGS; i++) if(tags[i] == hash) ...\<close>: the first index
  below \<open>MAX_TAGS\<close> that holds the hash, if there is one.
\<close>

definition find_tag :: "u32 list \<Rightarrow> u32 \<Rightarrow> nat option" where
  "find_tag ts hash =
     (case filter (\<lambda>i. ts ! i = hash) [0..<MAX_TAGS] of [] \<Rightarrow> None | i # _ \<Rightarrow> Some i)"

text \<open>What a call of \<^verbatim>\<open>debug_filter_add\<close> did.\<close>

datatype add_outcome =
    AlreadyPresent    \<comment> \<open>the hash was found, nothing stored\<close>
  | CapacityWarning   \<comment> \<open>\<^verbatim>\<open>debug_warn("increase MAX_TAGS")\<close>, nothing stored\<close>
  | Stored            \<comment> \<open>\<^verbatim>\<open>tags[num_tags++] = hash\<close>\<close>
  | OutOfBoundsWrite  \<comment> \<open>\<^verbatim>\<open>tags[num_tags++] = hash\<close> with \<open>num_tags > MAX_TAGS\<close>\<close>

definition debug_filter_add ::
  "(string \<Rightarrow> u32) \<Rightarrow> tag_filter \<Rightarrow> string \<Rightarrow> add_outcome \<times> tag_filter" where
  "debug_filter_add fnv_hash s tag =
     (let hash = fnv_hash tag in
      if find_tag (tags s) hash \<noteq> None then (AlreadyPresent, s)
      else if unat (num_tags s) = MAX_TAGS then (CapacityWarning, s)
      else if unat (num_tags s) < MAX_TAGS
        then (Stored, s\<lparr>tags := (tags s)[unat (num_tags s) := hash], num_tags := num_tags s + 1\<rparr>)
      else (OutOfBoundsWrite, s\<lparr>num_tags := num_tags s + 1\<rparr>))"

definition debug_filter_remove ::
  "(string \<Rightarrow> u32) \<Rightarrow> tag_filter \<Rightarrow> string \<Rightarrow> tag_filter" where
  "debug_filter_remove fnv_hash s tag =
     (let hash = fnv_hash tag in
      case find_tag (tags s) hash of
        None \<Rightarrow> s
      | Some i \<Rightarrow> s\<lparr>tags := (tags s)[i := tags s ! (MAX_TAGS - 1)], num_tags := num_tags s - 1\<rparr>)"

definition debug_filter_clear :: "tag_filter \<Rightarrow> tag_filter" where
  "debug_filter_clear s = s\<lparr>tags := replicate MAX_TAGS 0\<rparr>"

text \<open>
  The first loop of \<^verbatim>\<open>filter_allows\<close>: scan for the end of the tag. \<open>None\<close> when a blank
  or the end of the text comes first (no tag), \<open>Some i\<close> when \<^verbatim>\<open>text[i] == '|'\<close> with
  \<open>i \<noteq> 0\<close>.
\<close>

fun scan_tag :: "nat \<Rightarrow> string \<Rightarrow> nat option" where
  "scan_tag i [] = None"
| "scan_tag i (c # cs) =
     (if c = CHR '' '' then None
      else if c = CHR ''|'' \<and> i \<noteq> 0 then Some i
      else scan_tag (Suc i) cs)"

definition filter_allows :: "(string \<Rightarrow> u32) \<Rightarrow> tag_filter \<Rightarrow> string \<Rightarrow> bool" where
  "filter_allows fnv_hash s text =
     (case scan_tag 0 text of
        None \<Rightarrow> True
      | Some i \<Rightarrow> find_tag (tags s) (fnv_hash (take i text)) \<noteq> None)"

text \<open>A run of adds, with the outcome of each.\<close>

fun debug_filter_add_all ::
  "(string \<Rightarrow> u32) \<Rightarrow> tag_filter \<Rightarrow> string list \<Rightarrow> add_outcome list \<times> tag_filter" where
  "debug_filter_add_all fnv_hash s [] = ([], s)"
| "debug_filter_add_all fnv_hash s (t # ts) =
     (let (r, s') = debug_filter_add fnv_hash s t;
          (rs, s'') = debug_filter_add_all fnv_hash s' ts
      in (r # rs, s''))"


subsection \<open>Activity log\<close>

text \<open>
  \<^verbatim>\<open>static const size_t LOG_CHARS = 16384; wchar_t debug_log[LOG_CHARS];
  wchar_t* debug_log_pos = debug_log;\<close>
  The cursor is kept as the offset \<^verbatim>\<open>debug_log_pos - debug_log\<close>. A wide character is its
  code unit.
\<close>

type_synonym wchar = nat

definition LOG_CHARS :: nat where
  "LOG_CHARS = 16384"

record activity_log =
  debug_log :: "wchar list"
  debug_log_pos :: nat

definition activity_log_init :: activity_log where
  "activity_log_init = \<lparr>debug_log = replicate LOG_CHARS 0, debug_log_pos = 0\<rparr>"

text \<open>What stops a call of the source other than a normal return.\<close>

datatype fault =
    OutOfBounds       \<comment> \<open>an access outside the object the code meant to access\<close>
  | NullDeref         \<comment> \<open>a null pointer is dereferenced\<close>
  | AssertionFailed   \<comment> \<open>a \<^verbatim>\<open>debug_assert\<close> does not hold\<close>

text \<open>Writing \<open>xs\<close> into an array at offset \<open>pos\<close>; outside the array it is a fault.\<close>

definition store :: "'a list \<Rightarrow> nat \<Rightarrow> 'a list \<Rightarrow> fault + 'a list" where
  "store buf pos xs =
     (if pos + length xs \<le> length buf
      then Inr (take pos buf @ xs @ drop (pos + length xs) buf)
      else Inl OutOfBounds)"

text \<open>
  The conversion of a signed value to \<^verbatim>\<open>size_t\<close> at a call: modulo \<open>2 ^ 32\<close> (a wider
  \<^verbatim>\<open>size_t\<close> only makes the image of a negative value larger).
\<close>

definition to_size_t :: "int \<Rightarrow> nat" where
  "to_size_t i = nat (i mod 2 ^ 32)"

text \<open>
  C99 \<^verbatim>\<open>vswprintf(s, n, fmt, args)\<close>, where \<open>text\<close> is the expansion of the format:
  no more than \<open>n\<close> wide characters are written, the terminating null included; the result
  is the number of characters written without the null, or negative when \<open>n\<close> or more
  would have been needed. The pair is what is written at \<open>s\<close> and the value returned.
\<close>

definition vswprintf :: "nat \<Rightarrow> wchar list \<Rightarrow> wchar list \<times> int" where
  "vswprintf n text =
     (if length text < n then (text @ [0], int (length text))
      else (if n = 0 then [] else take (n - 1) text @ [0], - 1))"

text \<open>
  The body of \<^verbatim>\<open>if(chars_left < 512)\<close>: the second half is copied to the start, the
  second half is zeroed and the cursor moves back by \<open>LOG_CHARS/2\<close>.
\<close>

definition compact_log :: "activity_log \<Rightarrow> activity_log" where
  "compact_log s =
     \<lparr>debug_log = take (LOG_CHARS div 2) (drop (LOG_CHARS div 2) (debug_log s))
                    @ replicate (LOG_CHARS div 2) 0,
      debug_log_pos = debug_log_pos s - LOG_CHARS div 2\<rparr>"

text \<open>
  \<^verbatim>\<open>debug_wprintf_mem\<close>. The Boolean of the result says whether
  \<^verbatim>\<open>debug_warn("vswprintf failed")\<close> was raised. Note that \<open>chars_left\<close> is computed once,
  before the compaction, and that \<open>chars_left - 2\<close> is passed as a \<^verbatim>\<open>size_t\<close>.
\<close>

definition debug_wprintf_mem :: "activity_log \<Rightarrow> wchar list \<Rightarrow> fault + (bool \<times> activity_log)" where
  "debug_wprintf_mem s text =
     (let chars_left = int LOG_CHARS - int (debug_log_pos s) in
      if chars_left < 0 then Inl AssertionFailed
      else
        let s1 = (if chars_left < 512 then compact_log s else s);
            (out, len) = vswprintf (to_size_t (chars_left - 2)) text
        in case store (debug_log s1) (debug_log_pos s1) out of
             Inl f \<Rightarrow> Inl f
           | Inr buf \<Rightarrow>
               if len < 0 then Inr (True, s1\<lparr>debug_log := buf\<rparr>)
               else
                 let pos = debug_log_pos s1 + nat len + 2 in
                 (case store buf (pos - 2) [13, 10, 0] of
                    Inl f \<Rightarrow> Inl f
                  | Inr buf' \<Rightarrow> Inr (False, \<lparr>debug_log = buf', debug_log_pos = pos\<rparr>)))"


subsection \<open>Symbol description cache\<close>

text \<open>
  What \<^verbatim>\<open>symbol_string_build\<close> and \<^verbatim>\<open>symbol_string_add_to_cache\<close> call but debug.cpp
  does not define. \<open>debug_resolve_symbol\<close> gives what the resolver leaves in \<^verbatim>\<open>name_buf\<close>,
  \<^verbatim>\<open>file_buf\<close> and \<^verbatim>\<open>line_buf\<close>; \<open>format_pointer\<close> is the implementation-defined
  expansion of \<^verbatim>\<open>%p\<close>; \<open>malloc_ok\<close> and \<open>calloc_ok\<close> say whether the allocation succeeds.
\<close>

record platform =
  debug_resolve_symbol :: "nat \<Rightarrow> string \<times> string \<times> int"
  path_name_only :: "string \<Rightarrow> string"
  debug_stl_simplify_name :: "string \<Rightarrow> string"
  format_pointer :: "nat \<Rightarrow> string"
  malloc_ok :: bool
  calloc_ok :: bool

definition KiB :: nat where
  "KiB = 1024"

definition STRING_BUF_SIZE :: nat where
  "STRING_BUF_SIZE = 64 * KiB"

definition STRING_MAX :: nat where
  "STRING_MAX = 1000"

definition MAX_SYMBOLS :: nat where
  "MAX_SYMBOLS = 2048"

text \<open>
  \<^verbatim>\<open>struct Symbol { void* symbol; const char* string; };\<close> An address is a natural number,
  0 the null pointer; a description is kept by value. The entries that \<^verbatim>\<open>calloc\<close> zeroes
  have address 0 and no string.
\<close>

record Symbol =
  symbol :: nat
  string :: string

datatype warning =
    ERR_NO_MEM
  | ERR_LIMIT
  | FailedToAllocateSymbols

text \<open>
  The globals of the cache: whether \<^verbatim>\<open>string_buf\<close> is allocated, the offset
  \<^verbatim>\<open>string_buf_pos - string_buf\<close>, the table (\<open>None\<close> while \<^verbatim>\<open>symbols\<close> is null), the
  counters, and the warnings raised so far through \<^verbatim>\<open>WARN_ERR\<close> and \<^verbatim>\<open>debug_warn\<close>.
\<close>

record symbol_cache =
  string_buf :: bool
  string_buf_pos :: nat
  symbols :: "Symbol list option"
  total_symbols :: nat
  hash_jumps :: u32
  warnings :: "warning list"

definition symbol_cache_init :: symbol_cache where
  "symbol_cache_init =
     \<lparr>string_buf = False, string_buf_pos = 0, symbols = None, total_symbols = 0,
      hash_jumps = 0, warnings = []\<rparr>"

text \<open>A call returns a value, or stops with a fault.\<close>

datatype 'a result = Ok 'a | Fault fault

text \<open>C99 \<^verbatim>\<open>snprintf(s, n, ...)\<close>: what is written before the null, and the length asked for.\<close>

definition snprintf :: "nat \<Rightarrow> string \<Rightarrow> string \<times> nat" where
  "snprintf n text = (if n = 0 then [] else take (n - 1) text, length text)"

text \<open>The expansion of \<^verbatim>\<open>%05d\<close>.\<close>

fun decimal :: "nat \<Rightarrow> string" where
  "decimal n =
     (if n < 10 then [''0123456789'' ! n]
      else decimal (n div 10) @ [''0123456789'' ! (n mod 10)])"

declare decimal.simps [simp del]

definition format_05d :: "int \<Rightarrow> string" where
  "format_05d i =
     (if i < 0
      then CHR ''-'' # replicate (4 - length (decimal (nat (- i)))) CHR ''0'' @ decimal (nat (- i))
      else replicate (5 - length (decimal (nat i))) CHR ''0'' @ decimal (nat i))"

text \<open>
  The block \<^verbatim>\<open>if(!name || !file || !line) { ... }\<close> of \<^verbatim>\<open>symbol_string_build\<close>: the name,
  file and line that the description is built from.
\<close>

definition resolve_unknown ::
  "platform \<Rightarrow> nat \<Rightarrow> string option \<Rightarrow> string option \<Rightarrow> int
     \<Rightarrow> string option \<times> string option \<times> int" where
  "resolve_unknown p addr name file line =
     (if name = None \<or> file = None \<or> line = 0
      then
        let (name_buf, file_buf, line_buf) = debug_resolve_symbol p addr
        in (if name_buf \<noteq> [] then Some name_buf else name,
            if file_buf \<noteq> [] then Some file_buf else file,
            if line_buf \<noteq> 0 then line_buf else line)
      else (name, file, line))"

text \<open>
  The two \<^verbatim>\<open>snprintf\<close> calls and \<^verbatim>\<open>debug_stl_simplify_name\<close>; \<open>room\<close> is the number of
  bytes from \<^verbatim>\<open>string\<close> to the end of \<^verbatim>\<open>string_buf\<close>. The first call writes at most
  \<open>STRING_MAX - 2\<close> characters and the null. The second is given the size
  \<open>STRING_MAX-1-len\<close>, computed in \<^verbatim>\<open>size_t\<close>. When the first expansion was cut
  (\<open>len \<ge> STRING_MAX - 1\<close>), that size is zero (nothing is written) or wraps (the whole
  name is written), in both cases from \<^verbatim>\<open>string+len\<close> on, behind the null of the first
  call: the string returned is the cut prefix. It is a fault only when the name so
  written passes the end of \<^verbatim>\<open>string_buf\<close>.
\<close>

definition format_symbol ::
  "platform \<Rightarrow> nat \<Rightarrow> nat \<Rightarrow> string option \<Rightarrow> string option \<Rightarrow> int \<Rightarrow> string result" where
  "format_symbol p room addr name file line =
     (let (prefix, len) =
            (case file of
               Some f \<Rightarrow>
                 if line \<noteq> 0
                 then snprintf (STRING_MAX - 1) (path_name_only p f @ '':'' @ format_05d line @ '' '')
                 else snprintf (STRING_MAX - 1) (format_pointer p addr @ '' '')
             | None \<Rightarrow> snprintf (STRING_MAX - 1) (format_pointer p addr @ '' ''))
      in case name of
           None \<Rightarrow> Ok prefix
         | Some n \<Rightarrow>
             let size = to_size_t (int (STRING_MAX - 1) - int len);
                 written = fst (snprintf size n)
             in if len < STRING_MAX - 1 then Ok (prefix @ debug_stl_simplify_name p written)
                else if size = 0 \<or> len + length written + 1 \<le> room then Ok prefix
                else Fault OutOfBounds)"

text \<open>\<^verbatim>\<open>symbol_string_build\<close>: the string (\<open>None\<close> for the null pointer) and the new state.\<close>

definition symbol_string_build ::
  "platform \<Rightarrow> symbol_cache \<Rightarrow> nat \<Rightarrow> string option \<Rightarrow> string option \<Rightarrow> int
     \<Rightarrow> (string option \<times> symbol_cache) result" where
  "symbol_string_build p s addr name file line =
     (if \<not> string_buf s \<and> \<not> malloc_ok p
      then Ok (None, s\<lparr>warnings := warnings s @ [ERR_NO_MEM]\<rparr>)
      else
        let s1 = (if \<not> string_buf s then s\<lparr>string_buf := True, string_buf_pos := 0\<rparr> else s)
        in if string_buf_pos s1 + STRING_MAX \<ge> STRING_BUF_SIZE
           then Ok (None, s1\<lparr>warnings := warnings s1 @ [ERR_LIMIT]\<rparr>)
           else
             let (name', file', line') = resolve_unknown p addr name file line
             in case format_symbol p (STRING_BUF_SIZE - string_buf_pos s1) addr name' file' line' of
                  Fault f \<Rightarrow> Fault f
                | Ok str \<Rightarrow> Ok (Some str, s1))"

definition hash :: "nat \<Rightarrow> nat" where
  "hash addr = (addr div 4) mod MAX_SYMBOLS"

text \<open>
  The loop of \<^verbatim>\<open>symbol_string_from_cache\<close>. It has no exit but the two \<^verbatim>\<open>return\<close>s, so the
  result is \<open>None\<close> when it runs forever, \<open>Some None\<close> for \<^verbatim>\<open>return 0\<close> and
  \<open>Some (Some str)\<close> for \<^verbatim>\<open>return c->string\<close>.
\<close>

partial_function (option) from_cache_loop ::
  "Symbol list \<Rightarrow> nat \<Rightarrow> nat \<Rightarrow> string option option" where
  "from_cache_loop tab addr idx =
     (if symbol (tab ! idx) = 0 then Some None
      else if symbol (tab ! idx) = addr then Some (Some (string (tab ! idx)))
      else from_cache_loop tab addr ((idx + 1) mod MAX_SYMBOLS))"

definition symbol_string_from_cache :: "symbol_cache \<Rightarrow> nat \<Rightarrow> string option option" where
  "symbol_string_from_cache s addr =
     (case symbols s of
        None \<Rightarrow> Some None
      | Some tab \<Rightarrow> from_cache_loop tab addr (hash addr))"

text \<open>
  The loop of \<^verbatim>\<open>symbol_string_add_to_cache\<close>: the first empty slot from \<open>idx\<close> on and the
  number of jumps, \<open>None\<close> when it runs forever.
\<close>

partial_function (option) find_empty_slot ::
  "Symbol list \<Rightarrow> nat \<Rightarrow> nat \<Rightarrow> (nat \<times> nat) option" where
  "find_empty_slot tab idx jumps =
     (if symbol (tab ! idx) = 0 then Some (idx, jumps)
      else find_empty_slot tab ((idx + 1) mod MAX_SYMBOLS) (jumps + 1))"

definition symbol_string_add_to_cache ::
  "platform \<Rightarrow> symbol_cache \<Rightarrow> string \<Rightarrow> nat \<Rightarrow> symbol_cache result option" where
  "symbol_string_add_to_cache p s str addr =
     (let s1 = (case symbols s of
                  Some tab \<Rightarrow> s
                | None \<Rightarrow>
                    if calloc_ok p
                    then s\<lparr>symbols := Some (replicate MAX_SYMBOLS \<lparr>symbol = 0, string = []\<rparr>)\<rparr>
                    else s\<lparr>warnings := warnings s @ [FailedToAllocateSymbols]\<rparr>)
      in if total_symbols s1 \<ge> MAX_SYMBOLS
         then Some (Ok (s1\<lparr>warnings := warnings s1 @ [ERR_LIMIT]\<rparr>))
         else
           let s2 = s1\<lparr>total_symbols := total_symbols s1 + 1\<rparr>
           in case symbols s2 of
                None \<Rightarrow> Some (Fault NullDeref)
              | Some tab \<Rightarrow>
                  (case find_empty_slot tab (hash addr) 0 of
                     None \<Rightarrow> None
                   | Some (idx, jumps) \<Rightarrow>
                       Some (Ok (s2\<lparr>symbols := Some (tab[idx := \<lparr>symbol = addr, string = str\<rparr>]),
                                   hash_jumps := hash_jumps s2 + of_nat jumps,
                                   string_buf_pos := string_buf_pos s2 + length str + 1\<rparr>))))"

text \<open>
  \<^verbatim>\<open>debug_get_symbol_string\<close>: \<open>None\<close> when the call does not return, otherwise the
  pointer returned (\<open>None\<close> for null) and the new state, or a fault.
\<close>

definition debug_get_symbol_string ::
  "platform \<Rightarrow> symbol_cache \<Rightarrow> nat \<Rightarrow> string option \<Rightarrow> string option \<Rightarrow> int
     \<Rightarrow> (string option \<times> symbol_cache) result option" where
  "debug_get_symbol_string p s addr name file line =
     (case symbol_string_from_cache s addr of
        None \<Rightarrow> None
      | Some (Some str) \<Rightarrow> Some (Ok (Some str, s))
      | Some None \<Rightarrow>
          (case symbol_string_build p s addr name file line of
             Fault f \<Rightarrow> Some (Fault f)
           | Ok (None, s1) \<Rightarrow> Some (Ok (None, s1))
           | Ok (Some str, s1) \<Rightarrow>
               (case symbol_string_add_to_cache p s1 str addr of
                  None \<Rightarrow> None
                | Some (Fault f) \<Rightarrow> Some (Fault f)
                | Some (Ok s2) \<Rightarrow> Some (Ok (Some str, s2)))))"


text \<open>
  A run of calls, each with its own platform, address and hints: the last state, \<open>None\<close>
  when a call does not return or faults.
\<close>

type_synonym symbol_call = "platform \<times> nat \<times> string option \<times> string option \<times> int"

fun debug_get_symbol_string_calls :: "symbol_cache \<Rightarrow> symbol_call list \<Rightarrow> symbol_cache option" where
  "debug_get_symbol_string_calls s [] = Some s"
| "debug_get_symbol_string_calls s ((p, addr, name, file, line) # calls) =
     (case debug_get_symbol_string p s addr name file line of
        Some (Ok (r, s')) \<Rightarrow> debug_get_symbol_string_calls s' calls
      | _ \<Rightarrow> None)"

text \<open>
  A platform for the examples: \<^verbatim>\<open>%p\<close> prints \<open>0x\<close> and the address in hexadecimal, the
  base name is what follows the last slash, names are not simplified, allocations
  succeed, and the debug information knows the name of the symbol at address 4096 only.
\<close>

fun hexadecimal :: "nat \<Rightarrow> string" where
  "hexadecimal n =
     (if n < 16 then [''0123456789abcdef'' ! n]
      else hexadecimal (n div 16) @ [''0123456789abcdef'' ! (n mod 16)])"

declare hexadecimal.simps [simp del]

definition example_platform :: platform where
  "example_platform =
     \<lparr>debug_resolve_symbol = (\<lambda>a. if a = 4096 then (''resolved_name'', [], 0) else ([], [], 0)),
      path_name_only = (\<lambda>f. rev (takeWhile (\<lambda>c. c \<noteq> CHR ''/'') (rev f))),
      debug_stl_simplify_name = (\<lambda>n. n),
      format_pointer = (\<lambda>a. ''0x'' @ hexadecimal a),
      malloc_ok = True,
      calloc_ok = True\<rparr>"

text \<open>The same platform without debug information.\<close>

definition quiet_platform :: platform where
  "quiet_platform = example_platform\<lparr>debug_resolve_symbol := (\<lambda>a. ([], [], 0))\<rparr>"

text \<open>
  A run of calls without hints, one per address: the last state, \<open>None\<close> when a call
  does not return or faults.
\<close>

fun get_symbol_strings :: "platform \<Rightarrow> symbol_cache \<Rightarrow> nat list \<Rightarrow> symbol_cache option" where
  "get_symbol_strings p s [] = Some s"
| "get_symbol_strings p s (a # as) =
     (case debug_get_symbol_string p s a None None 0 of
        Some (Ok (r, s')) \<Rightarrow> get_symbol_strings p s' as
      | _ \<Rightarrow> None)"

text \<open>
  The cache after such calls on the addresses \<open>4, 8, ..., 4 * n\<close> on the quiet platform
  (shown below): the address \<open>4 * i\<close> hashes to slot \<open>i mod MAX_SYMBOLS\<close>.
\<close>

definition address_description :: "nat \<Rightarrow> string" where
  "address_description k = ''0x'' @ hexadecimal (4 * k) @ '' ''"

definition filled_table :: "nat \<Rightarrow> Symbol list" where
  "filled_table n =
     map (\<lambda>i. if 0 < i \<and> i \<le> n then \<lparr>symbol = 4 * i, string = address_description i\<rparr>
               else if i = 0 \<and> n = MAX_SYMBOLS
                 then \<lparr>symbol = 4 * MAX_SYMBOLS, string = address_description MAX_SYMBOLS\<rparr>
               else \<lparr>symbol = 0, string = []\<rparr>) [0..<MAX_SYMBOLS]"

definition filled_cache :: "nat \<Rightarrow> symbol_cache" where
  "filled_cache n =
     \<lparr>string_buf = True, string_buf_pos = (\<Sum>k = 1..n. length (address_description k) + 1),
      symbols = Some (filled_table n), total_symbols = n, hash_jumps = 0, warnings = []\<rparr>"

text \<open>
  A cache whose string buffer is used up: 70 descriptions of 921 characters take 64540
  of the 65536 bytes.
\<close>

definition exhausted_cache :: symbol_cache where
  "exhausted_cache =
     \<lparr>string_buf = True, string_buf_pos = 64540,
      symbols = Some (map (\<lambda>i. if 0 < i \<and> i \<le> 70
                                 then \<lparr>symbol = 4 * i, string = replicate 921 CHR ''x''\<rparr>
                                 else \<lparr>symbol = 0, string = []\<rparr>) [0..<MAX_SYMBOLS]),
      total_symbols = 70, hash_jumps = 0, warnings = []\<rparr>"

text \<open>The table, once allocated, has \<open>MAX_SYMBOLS\<close> entries (\<^verbatim>\<open>calloc(MAX_SYMBOLS, ...)\<close>).\<close>

definition table_ok :: "symbol_cache \<Rightarrow> bool" where
  "table_ok s = (case symbols s of None \<Rightarrow> True | Some tab \<Rightarrow> length tab = MAX_SYMBOLS)"

subsection \<open>Error reporter\<close>

text \<open>
  \<^verbatim>\<open>ErrorReaction\<close> is declared in debug.h; these are the values debug.cpp uses.
\<close>

datatype ErrorReaction = ER_CONTINUE | ER_BREAK | ER_SUPPRESS | ER_EXIT | ER_NOT_IMPLEMENTED

text \<open>
  The constants of debug.h and the hooks that \<^verbatim>\<open>debug_display_error\<close> calls.
  \<open>format_message\<close> is the expansion of the format of \<^verbatim>\<open>build_error_message\<close> for a
  description, file name, line and function; \<open>debug_dump_stack\<close> gives the trace written
  for a capacity, a skip count and a context; \<open>heap_ok\<close> says whether \<^verbatim>\<open>malloc\<close> succeeds;
  \<open>base_name_only\<close> is \<^verbatim>\<open>path_name_only\<close> again (a field name is used once).
\<close>

record reporter_hooks =
  DEBUG_SUPPRESS :: u8
  DE_ALLOW_SUPPRESS :: u32
  DE_MANUAL_BREAK :: u32
  ah_translate :: "string \<Rightarrow> string"
  base_name_only :: "string \<Rightarrow> string"
  format_message :: "string \<Rightarrow> string \<Rightarrow> int \<Rightarrow> string \<Rightarrow> string"
  debug_dump_stack :: "nat \<Rightarrow> u32 \<Rightarrow> nat option \<Rightarrow> string"
  ah_display_error :: "string \<Rightarrow> u32 \<Rightarrow> ErrorReaction"
  sys_display_error :: "string \<Rightarrow> u32 \<Rightarrow> ErrorReaction"
  heap_ok :: bool

text \<open>The calls a report makes that are visible outside, in order.\<close>

datatype effect =
    Wprintf string int string      \<comment> \<open>\<^verbatim>\<open>debug_wprintf(L"%hs(%d): %ls\n", fn_only, line, description)\<close>\<close>
  | WriteCrashlog string           \<comment> \<open>\<^verbatim>\<open>debug_write_crashlog(text)\<close>\<close>
  | AppDisplay string u32          \<comment> \<open>\<^verbatim>\<open>ah_display_error(text, flags)\<close>\<close>
  | SysDisplay string u32          \<comment> \<open>\<^verbatim>\<open>sys_display_error(text, flags)\<close>\<close>
  | DebugBreak                     \<comment> \<open>\<^verbatim>\<open>debug_break()\<close>\<close>
  | HeapDiagnosticsOff             \<comment> \<open>\<^verbatim>\<open>debug_heap_enable(DEBUG_HEAP_NONE)\<close>, \<^verbatim>\<open>mmgr_set_options(0)\<close>\<close>
  | ExitFailure                    \<comment> \<open>\<^verbatim>\<open>exit(EXIT_FAILURE)\<close>\<close>

record reporter =
  exit_requested :: bool
  already_in_progress :: nat
  effects :: "effect list"

definition reporter_init :: reporter where
  "reporter_init = \<lparr>exit_requested = False, already_in_progress = 0, effects = []\<rparr>"

text \<open>How a report ends: it returns a reaction, the process exits, or a fault.\<close>

datatype report_end = Returned ErrorReaction | ProcessExited | Faulted fault

text \<open>The suppress flag of the call site is \<open>None\<close> for a null pointer, else the byte it points to.\<close>

definition should_suppress_error :: "reporter_hooks \<Rightarrow> reporter \<Rightarrow> u8 option \<Rightarrow> bool" where
  "should_suppress_error h s suppress =
     (case suppress of
        None \<Rightarrow> False
      | Some v \<Rightarrow>
          if v = DEBUG_SUPPRESS h then True
          else if exit_requested s then True
          else False)"

definition nested_notice :: string where
  "nested_notice =
     ''(cannot start a nested stack trace; what probably happened is that '' @
     ''an debug_assert/debug_warn/CHECK_ERR fired during the current trace.)''"

text \<open>
  \<^verbatim>\<open>build_error_message\<close>. \<^verbatim>\<open>swprintf\<close> fails when the header does not fit in \<open>max_chars\<close>;
  \<^verbatim>\<open>wcscpy_s\<close> leaves the destination empty when the notice does not fit.
\<close>

definition build_error_message ::
  "reporter_hooks \<Rightarrow> bool \<Rightarrow> nat \<Rightarrow> string \<Rightarrow> string \<Rightarrow> int \<Rightarrow> string \<Rightarrow> u32 \<Rightarrow> nat option
     \<Rightarrow> bool \<Rightarrow> string" where
  "build_error_message h buf max_chars description fn_only line func skip context_opt is_nested_error =
     (if \<not> buf then ''(insufficient memory to generate error message)''
      else
        let header = format_message h description fn_only line func in
        if length header \<ge> max_chars then ''(error while formatting error message)''
        else
          let chars_left = max_chars - length header in
          if \<not> is_nested_error
          then header @ debug_dump_stack h chars_left
                          (if context_opt = None then skip + 1 else skip) context_opt
          else header @ (if length nested_notice < chars_left then nested_notice else []))"

definition call_display_error ::
  "reporter_hooks \<Rightarrow> reporter \<Rightarrow> string \<Rightarrow> u32 \<Rightarrow> ErrorReaction \<times> reporter" where
  "call_display_error h s text flags =
     (let er = ah_display_error h text flags;
          s1 = s\<lparr>effects := effects s @ [AppDisplay text flags]\<rparr>
      in if er = ER_NOT_IMPLEMENTED
         then (sys_display_error h text flags, s1\<lparr>effects := effects s1 @ [SysDisplay text flags]\<rparr>)
         else (er, s1))"

text \<open>
  \<^verbatim>\<open>carry_out_ErrorReaction\<close>: how the call ends, the new state and the new content of the
  suppress flag.
\<close>

definition carry_out_ErrorReaction ::
  "reporter_hooks \<Rightarrow> reporter \<Rightarrow> ErrorReaction \<Rightarrow> u32 \<Rightarrow> u8 option
     \<Rightarrow> report_end \<times> reporter \<times> u8 option" where
  "carry_out_ErrorReaction h s er flags suppress =
     (let manual_break = (and flags (DE_MANUAL_BREAK h) \<noteq> 0) in
      case er of
        ER_BREAK \<Rightarrow>
          if \<not> manual_break
          then (Returned ER_CONTINUE, s\<lparr>effects := effects s @ [DebugBreak]\<rparr>, suppress)
          else (Returned ER_BREAK, s, suppress)
      | ER_SUPPRESS \<Rightarrow>
          (case suppress of
             None \<Rightarrow> (Faulted NullDeref, s, suppress)
           | Some v \<Rightarrow> (Returned ER_CONTINUE, s, Some (DEBUG_SUPPRESS h)))
      | ER_EXIT \<Rightarrow>
          (ProcessExited,
           s\<lparr>exit_requested := True, effects := effects s @ [HeapDiagnosticsOff, ExitFailure]\<rparr>,
           suppress)
      | _ \<Rightarrow> (Returned er, s, suppress))"

text \<open>\<^verbatim>\<open>CAS(&loc, expected, new_value)\<close>: whether it succeeded, and the new content.\<close>

definition CAS :: "nat \<Rightarrow> nat \<Rightarrow> nat \<Rightarrow> bool \<times> nat" where
  "CAS loc expected new_value = (if loc = expected then (True, new_value) else (False, loc))"

text \<open>
  The two accesses of \<^verbatim>\<open>debug_display_error\<close> to the guard:
  \<^verbatim>\<open>const bool is_nested = !CAS(&already_in_progress, 0, 1);\<close> before the message is built,
  and \<^verbatim>\<open>already_in_progress = 0;\<close> after the display.
\<close>

definition enter_report :: "reporter \<Rightarrow> bool \<times> reporter" where
  "enter_report s =
     (let (ok, v) = CAS (already_in_progress s) 0 1
      in (\<not> ok, s\<lparr>already_in_progress := v\<rparr>))"

definition leave_report :: "reporter \<Rightarrow> reporter" where
  "leave_report s = s\<lparr>already_in_progress := 0\<rparr>"

text \<open>
  \<^verbatim>\<open>debug_display_error\<close>, for a call during which no other report starts.
\<close>

definition debug_display_error ::
  "reporter_hooks \<Rightarrow> reporter \<Rightarrow> string \<Rightarrow> u32 \<Rightarrow> u32 \<Rightarrow> nat option
     \<Rightarrow> string option \<Rightarrow> int \<Rightarrow> string option \<Rightarrow> u8 option
     \<Rightarrow> report_end \<times> reporter \<times> u8 option" where
  "debug_display_error h s description flags skip context_opt file line func suppress =
     (if should_suppress_error h s suppress then (Returned ER_CONTINUE, s, suppress)
      else
        let description' = ah_translate h description;
            flags' = (if suppress \<noteq> None then or flags (DE_ALLOW_SUPPRESS h) else flags);
            file' = (case file of None \<Rightarrow> ''unknown'' | Some f \<Rightarrow> if f = [] then ''unknown'' else f);
            line' = (if line \<le> 0 then 0 else line);
            func' = (case func of None \<Rightarrow> ''?'' | Some f \<Rightarrow> if f = [] then ''?'' else f);
            fn_only = base_name_only h file';
            s1 = s\<lparr>effects := effects s @ [Wprintf fn_only line' description']\<rparr>;
            max_chars = (if heap_ok h then 256 * KiB else 128 * KiB);
            (is_nested, s2) = enter_report s1;
            text = build_error_message h True max_chars description' fn_only line' func'
                     skip context_opt is_nested;
            s3 = (if \<not> is_nested then s2\<lparr>effects := effects s2 @ [WriteCrashlog text]\<rparr> else s2);
            (er, s4) = call_display_error h s3 text flags';
            s5 = leave_report s4
        in carry_out_ErrorReaction h s5 er flags' suppress)"

text \<open>
  Reports that overlap, on one thread (a report started from inside the stack trace or
  the display of another) or on several: each report enters and leaves, and the order of
  these steps is the schedule. The state keeps, next to the reporter, the reports that
  have entered and not left, each with its \<open>is_nested\<close>.
\<close>

datatype report_step = Enter nat | Leave nat

fun do_step :: "reporter \<times> (nat \<times> bool) list \<Rightarrow> report_step \<Rightarrow> reporter \<times> (nat \<times> bool) list" where
  "do_step (s, running) (Enter c) =
     (let (is_nested, s') = enter_report s in (s', running @ [(c, is_nested)]))"
| "do_step (s, running) (Leave c) =
     (leave_report s, filter (\<lambda>(c', n). c' \<noteq> c) running)"

definition run_schedule :: "reporter \<Rightarrow> report_step list \<Rightarrow> reporter \<times> (nat \<times> bool) list" where
  "run_schedule s steps = foldl do_step (s, []) steps"

text \<open>The reports that are running with a full stack trace (\<open>is_nested\<close> false).\<close>

definition full_trace_reports :: "reporter \<times> (nat \<times> bool) list \<Rightarrow> nat list" where
  "full_trace_reports st = map fst (filter (\<lambda>(c, n). \<not> n) (snd st))"


section \<open>Properties\<close>

subsection \<open>Tag filter\<close>

lemma find_tag_None: "find_tag ts h = None \<longleftrightarrow> (\<forall>i<MAX_TAGS. ts ! i \<noteq> h)"
proof -
  have "find_tag ts h = None \<longleftrightarrow> filter (\<lambda>i. ts ! i = h) [0..<MAX_TAGS] = []"
    by (simp add: find_tag_def split: list.splits)
  also have "\<dots> \<longleftrightarrow> (\<forall>i<MAX_TAGS. ts ! i \<noteq> h)"
    by (auto simp: filter_empty_conv)
  finally show ?thesis .
qed

text \<open>
  C3. \<^verbatim>\<open>debug_filter_remove\<close> is meant to fill the vacated slot with the last occupied
  slot, so that no hole remains and a later add displaces nothing. The code copies
  \<^verbatim>\<open>tags[MAX_TAGS-1]\<close>, the last slot of the array, not \<^verbatim>\<open>tags[num_tags-1]\<close>. With two
  tags \<open>a\<close>, \<open>b\<close> added to the empty filter, removing \<open>a\<close> puts the zero of slot 19 into
  slot 0 and lowers the count to 1, so \<open>b\<close> sits at the index where the next add stores:
  adding \<open>c\<close> overwrites \<open>b\<close>, which is no longer enabled.
\<close>

theorem debug_filter_remove_leaves_hole:
  assumes "fnv_hash a \<noteq> 0" "fnv_hash b \<noteq> 0" "fnv_hash c \<noteq> 0"
    and "fnv_hash a \<noteq> fnv_hash b" "fnv_hash a \<noteq> fnv_hash c" "fnv_hash b \<noteq> fnv_hash c"
  shows "let s1 = snd (debug_filter_add fnv_hash tag_filter_init a);
             s2 = snd (debug_filter_add fnv_hash s1 b);
             s3 = debug_filter_remove fnv_hash s2 a;
             s4 = snd (debug_filter_add fnv_hash s3 c)
         in tags s3 = (replicate MAX_TAGS 0)[1 := fnv_hash b] \<and> num_tags s3 = 1
          \<and> find_tag (tags s3) (fnv_hash b) = Some 1
          \<and> tags s4 = (replicate MAX_TAGS 0)[1 := fnv_hash c]
          \<and> find_tag (tags s4) (fnv_hash b) = None"
  using assms
  by (simp add: debug_filter_add_def debug_filter_remove_def tag_filter_init_def MAX_TAGS_def
      find_tag_def Let_def eval_nat_numeral)

theorem debug_filter_remove_leaves_hole_witness:
  "let fnv_hash = (\<lambda>t. of_nat (length t)) :: string \<Rightarrow> u32;
       s1 = snd (debug_filter_add fnv_hash tag_filter_init ''a'');
       s2 = snd (debug_filter_add fnv_hash s1 ''bb'');
       s3 = debug_filter_remove fnv_hash s2 ''a'';
       s4 = snd (debug_filter_add fnv_hash s3 ''ccc'')
   in fnv_hash ''a'' \<noteq> 0 \<and> fnv_hash ''bb'' \<noteq> 0 \<and> fnv_hash ''ccc'' \<noteq> 0
    \<and> fnv_hash ''a'' \<noteq> fnv_hash ''bb'' \<and> fnv_hash ''a'' \<noteq> fnv_hash ''ccc''
    \<and> fnv_hash ''bb'' \<noteq> fnv_hash ''ccc''
    \<and> find_tag (tags s4) (fnv_hash ''bb'') = None
    \<and> \<not> filter_allows fnv_hash s4 ''bb|draw call''"
  using debug_filter_remove_leaves_hole
    [of "(\<lambda>t. of_nat (length t)) :: string \<Rightarrow> u32" "''a''" "''bb''" "''ccc''"]
  by (auto simp: Let_def filter_allows_def)

lemma remove_from_last_slot:
  assumes "find_tag (tags s) (fnv_hash t) = Some (MAX_TAGS - 1)"
  shows "tags (debug_filter_remove fnv_hash s t) = tags s"
  using assms by (simp add: debug_filter_remove_def)

lemma add_after_clear:
  assumes "unat (num_tags s) = MAX_TAGS" and "fnv_hash t \<noteq> 0"
  shows "debug_filter_add fnv_hash (debug_filter_clear s) t = (CapacityWarning, debug_filter_clear s)"
proof -
  have "find_tag (tags (debug_filter_clear s)) (fnv_hash t) = None"
    using assms(2) by (simp add: find_tag_None debug_filter_clear_def)
  moreover have "unat (num_tags (debug_filter_clear s)) = MAX_TAGS"
    using assms(1) by (simp add: debug_filter_clear_def)
  ultimately show ?thesis
    by (simp add: debug_filter_add_def)
qed

text \<open>
  C10. \<^verbatim>\<open>debug_filter_clear\<close> zeroes every slot and leaves \<open>num_tags\<close> as it is, in every
  state. When the count is \<open>MAX_TAGS\<close> (20 adds have filled the slots), every add after
  the clear of a tag whose hash is not zero therefore gets the capacity warning and leaves
  the filter as the clear left it.
\<close>

theorem debug_filter_clear_keeps_count:
  "tags (debug_filter_clear s) = replicate MAX_TAGS 0
   \<and> num_tags (debug_filter_clear s) = num_tags s
   \<and> (unat (num_tags s) = MAX_TAGS \<longrightarrow> (\<forall>t\<in>set ts. fnv_hash t \<noteq> 0) \<longrightarrow>
        debug_filter_add_all fnv_hash (debug_filter_clear s) ts
           = (replicate (length ts) CapacityWarning, debug_filter_clear s))"
proof (intro conjI impI)
  show "tags (debug_filter_clear s) = replicate MAX_TAGS 0"
    by (simp add: debug_filter_clear_def)
  show "num_tags (debug_filter_clear s) = num_tags s"
    by (simp add: debug_filter_clear_def)
next
  assume full: "unat (num_tags s) = MAX_TAGS" and hashes: "\<forall>t\<in>set ts. fnv_hash t \<noteq> 0"
  show "debug_filter_add_all fnv_hash (debug_filter_clear s) ts
           = (replicate (length ts) CapacityWarning, debug_filter_clear s)"
    using hashes by (induction ts) (simp_all add: add_after_clear [OF full])
qed

lemma twenty_adds:
  "debug_filter_add_all (\<lambda>t. of_nat (length t)) tag_filter_init
     (map (\<lambda>n. replicate n CHR ''x'') [1..<21])
   = (replicate 20 Stored, \<lparr>tags = map of_nat [1..<21], num_tags = 20\<rparr>)"
  by code_simp

theorem debug_filter_clear_keeps_count_witness:
  "let fnv_hash = (\<lambda>t. of_nat (length t)) :: string \<Rightarrow> u32;
       s = snd (debug_filter_add_all fnv_hash tag_filter_init
                  (map (\<lambda>n. replicate n CHR ''x'') [1..<21]));
       s' = \<lparr>tags = (replicate MAX_TAGS 0)[0 := 7], num_tags = 1\<rparr>
   in tags (debug_filter_clear s') = replicate MAX_TAGS 0
    \<and> num_tags (debug_filter_clear s') = 1
    \<and> unat (num_tags s) = MAX_TAGS
    \<and> (\<forall>t\<in>set [''render'', ''audio'']. fnv_hash t \<noteq> 0)
    \<and> tags (debug_filter_clear s) = replicate MAX_TAGS 0
    \<and> num_tags (debug_filter_clear s) = 20
    \<and> debug_filter_add_all fnv_hash (debug_filter_clear s) [''render'', ''audio'']
        = ([CapacityWarning, CapacityWarning], debug_filter_clear s)"
proof -
  let ?f = "(\<lambda>t. of_nat (length t)) :: string \<Rightarrow> u32"
  let ?s = "snd (debug_filter_add_all ?f tag_filter_init
                  (map (\<lambda>n. replicate n CHR ''x'') [1..<21]))"
  let ?s' = "\<lparr>tags = (replicate MAX_TAGS 0)[0 := 7], num_tags = 1\<rparr> :: tag_filter"
  have count: "num_tags ?s = 20"
    by (simp only: twenty_adds) simp
  have full: "unat (num_tags ?s) = MAX_TAGS"
    by (simp only: count) (simp add: MAX_TAGS_def)
  have hashes: "\<forall>t\<in>set [''render'', ''audio'']. ?f t \<noteq> 0"
    by simp
  note cleared = debug_filter_clear_keeps_count
    [where s = ?s and ts = "[''render'', ''audio'']" and fnv_hash = ?f]
  note cleared' = debug_filter_clear_keeps_count
    [where s = ?s' and ts = "[]" and fnv_hash = ?f]
  have two: "replicate (length [''render'', ''audio'']) CapacityWarning
               = [CapacityWarning, CapacityWarning]"
    by simp
  have one: "num_tags ?s' = 1"
    by simp
  show ?thesis
    unfolding Let_def
  proof (intro conjI)
    show "tags (debug_filter_clear ?s') = replicate MAX_TAGS 0"
      using cleared' by blast
    show "num_tags (debug_filter_clear ?s') = 1"
      using cleared' one by metis
    show "unat (num_tags ?s) = MAX_TAGS"
      by (rule full)
    show "\<forall>t\<in>set [''render'', ''audio'']. ?f t \<noteq> 0"
      by (rule hashes)
    show "tags (debug_filter_clear ?s) = replicate MAX_TAGS 0"
      using cleared by blast
    show "num_tags (debug_filter_clear ?s) = 20"
      using cleared count by metis
    show "debug_filter_add_all ?f (debug_filter_clear ?s) [''render'', ''audio'']
            = ([CapacityWarning, CapacityWarning], debug_filter_clear ?s)"
      using cleared full hashes two by metis
  qed
qed

subsection \<open>Activity log\<close>

text \<open>
  With at least two characters left at entry, an append stays inside the buffer and
  leaves the cursor below \<open>LOG_CHARS\<close> (\<open>debug_wprintf_mem_in_bounds\<close>); when fewer than
  512 are left, the content between the middle of the buffer and the cursor is found at
  the start afterwards and the cursor has moved back by \<open>LOG_CHARS/2\<close>
  (\<open>debug_wprintf_mem_compacts\<close>).
\<close>

lemma to_size_t_small: "0 \<le> i \<Longrightarrow> i < 2 ^ 32 \<Longrightarrow> to_size_t i = nat i"
  by (simp add: to_size_t_def)

lemma store_Inr:
  "pos + length xs \<le> length buf \<Longrightarrow>
   store buf pos xs = Inr (take pos buf @ xs @ drop (pos + length xs) buf)"
  by (simp add: store_def)

lemma length_stored:
  "pos + length xs \<le> length buf \<Longrightarrow>
   length (take pos buf @ xs @ drop (pos + length xs) buf) = length buf"
  by simp

lemma length_vswprintf: "0 < n \<Longrightarrow> length (fst (vswprintf n text)) \<le> n"
  by (simp add: vswprintf_def)

lemma vswprintf_ok:
  "0 \<le> snd (vswprintf n text) \<Longrightarrow>
   fst (vswprintf n text) = text @ [0] \<and> snd (vswprintf n text) = int (length text) \<and> length text < n"
  by (simp add: vswprintf_def split: if_splits)

lemma debug_wprintf_mem_in_bounds:
  assumes len: "length (debug_log s) = LOG_CHARS" and room: "debug_log_pos s + 2 \<le> LOG_CHARS"
  shows "\<exists>w s'. debug_wprintf_mem s text = Inr (w, s')
           \<and> length (debug_log s') = LOG_CHARS \<and> debug_log_pos s' < LOG_CHARS"
proof -
  define chars_left where "chars_left = LOG_CHARS - debug_log_pos s"
  define s1 where "s1 = (if chars_left < 512 then compact_log s else s)"
  define n where "n = chars_left - 2"
  have cl: "int LOG_CHARS - int (debug_log_pos s) = int chars_left" "2 \<le> chars_left"
    using room by (simp_all add: chars_left_def)
  have size: "to_size_t (int chars_left - 2) = n"
    using cl by (simp add: to_size_t_def n_def chars_left_def LOG_CHARS_def)
  have len1: "length (debug_log s1) = LOG_CHARS"
    using len by (simp add: s1_def compact_log_def LOG_CHARS_def)
  have pos1: "debug_log_pos s1 + chars_left \<le> LOG_CHARS"
    using room by (auto simp: s1_def compact_log_def chars_left_def LOG_CHARS_def)
  obtain out r where v: "vswprintf n text = (out, r)"
    by force
  have out_len: "length out \<le> n"
    using v by (cases "n = 0") (auto simp: vswprintf_def split: if_splits)
  then have fits: "debug_log_pos s1 + length out \<le> length (debug_log s1)"
    using pos1 len1 by (simp add: n_def)
  define buf where "buf = take (debug_log_pos s1) (debug_log s1) @ out
                           @ drop (debug_log_pos s1 + length out) (debug_log s1)"
  have st: "store (debug_log s1) (debug_log_pos s1) out = Inr buf"
    using fits by (simp add: store_def buf_def)
  have buf_len: "length buf = LOG_CHARS"
    using fits len1 by (simp add: buf_def)
  have start: "debug_wprintf_mem s text =
      (if r < 0 then Inr (True, s1\<lparr>debug_log := buf\<rparr>)
       else let pos = debug_log_pos s1 + nat r + 2 in
         (case store buf (pos - 2) [13, 10, 0] of
            Inl f \<Rightarrow> Inl f
          | Inr buf' \<Rightarrow> Inr (False, \<lparr>debug_log = buf', debug_log_pos = pos\<rparr>)))"
    using cl(2) by (simp add: debug_wprintf_mem_def cl(1) size v st s1_def [symmetric] Let_def)
  show ?thesis
  proof (cases "r < 0")
    case True
    have "debug_log_pos s1 < LOG_CHARS"
      using pos1 cl(2) by simp
    then show ?thesis
      using True start buf_len by auto
  next
    case False
    then have ok: "r = int (length text)" "length text < n"
      using vswprintf_ok [of n "text"] v by simp_all
    have end_pos: "debug_log_pos s1 + length text + 3 \<le> LOG_CHARS"
      using ok(2) pos1 by (simp add: n_def)
    then have "\<exists>buf'. store buf (debug_log_pos s1 + length text) [13, 10, 0] = Inr buf'
                   \<and> length buf' = LOG_CHARS"
      using buf_len by (simp add: store_def)
    then show ?thesis
      using False start ok(1) buf_len end_pos by (auto simp: Let_def)
  qed
qed


lemma debug_wprintf_mem_compacts:
  assumes len: "length (debug_log s) = LOG_CHARS"
    and low: "LOG_CHARS - 512 < debug_log_pos s" and room: "debug_log_pos s + 2 \<le> LOG_CHARS"
    and call: "debug_wprintf_mem s text = Inr (False, s')"
  shows "debug_log_pos s' = debug_log_pos s - LOG_CHARS div 2 + length text + 2
       \<and> take (debug_log_pos s - LOG_CHARS div 2) (debug_log s')
           = take (debug_log_pos s - LOG_CHARS div 2) (drop (LOG_CHARS div 2) (debug_log s))"
proof -
  define p where "p = debug_log_pos s - LOG_CHARS div 2"
  define n where "n = LOG_CHARS - debug_log_pos s - 2"
  define old where "old = take (LOG_CHARS div 2) (drop (LOG_CHARS div 2) (debug_log s))
                            @ replicate (LOG_CHARS div 2) 0"
  have cl: "int LOG_CHARS - int (debug_log_pos s) < 512" "\<not> int LOG_CHARS - int (debug_log_pos s) < 0"
    using low room by (simp_all add: LOG_CHARS_def)
  have size: "to_size_t (int LOG_CHARS - int (debug_log_pos s) - 2) = n"
    using room by (simp add: to_size_t_def n_def LOG_CHARS_def)
  have compact: "compact_log s = \<lparr>debug_log = old, debug_log_pos = p\<rparr>"
    by (simp add: compact_log_def old_def p_def)
  have old_len: "length old = LOG_CHARS"
    using len by (simp add: old_def LOG_CHARS_def)
  have p_n: "p + n + 2 \<le> LOG_CHARS"
    using low room by (simp add: p_def n_def LOG_CHARS_def)
  obtain out r where v: "vswprintf n text = (out, r)"
    by force
  have out_len: "length out \<le> n"
    using v by (cases "n = 0") (auto simp: vswprintf_def split: if_splits)
  define buf where "buf = take p old @ out @ drop (p + length out) old"
  have st: "store old p out = Inr buf"
    using out_len p_n old_len by (simp add: store_def buf_def)
  have start: "debug_wprintf_mem s text =
      (if r < 0 then Inr (True, \<lparr>debug_log = buf, debug_log_pos = p\<rparr>)
       else (case store buf (p + nat r) [13, 10, 0] of
            Inl f \<Rightarrow> Inl f
          | Inr buf' \<Rightarrow> Inr (False, \<lparr>debug_log = buf', debug_log_pos = p + nat r + 2\<rparr>)))"
    using cl by (simp add: debug_wprintf_mem_def size v compact st Let_def split: sum.splits)
  have ok: "r = int (length text)" "length text < n" "out = text @ [0]"
    using vswprintf_ok [of n "text"] v call start by (auto split: if_splits)
  have buf_len: "length buf = LOG_CHARS"
    using out_len p_n old_len by (simp add: buf_def)
  have fits: "p + length text + 3 \<le> length buf"
    using ok(2) p_n buf_len by simp
  have "\<exists>rest. s' = \<lparr>debug_log = take (p + length text) buf @ rest,
                           debug_log_pos = p + length text + 2\<rparr>"
    using call start ok(1) fits by (auto simp: store_def)
  then obtain rest where s': "s' = \<lparr>debug_log = take (p + length text) buf @ rest,
                           debug_log_pos = p + length text + 2\<rparr>"
    by blast
  have "take p (debug_log s') = take p buf"
    using fits by (simp add: s')
  also have "\<dots> = take p old"
    using p_n old_len by (simp add: buf_def)
  also have "\<dots> = take p (drop (LOG_CHARS div 2) (debug_log s))"
    using low room len by (simp add: old_def p_def LOG_CHARS_def)
  finally show ?thesis
    by (simp add: s' p_def)
qed

text \<open>
  C7. An append is meant to keep the cursor within \<open>LOG_CHARS\<close> and to write inside the
  buffer. A line of 16381 characters appended to the empty log is written in full and
  leaves the cursor at 16383, one character from the end. At the next append
  \<open>chars_left\<close> is 1: the log is compacted, the cursor moves to 8191, and the size passed
  to \<^verbatim>\<open>vswprintf\<close> is \<open>chars_left - 2 = -1\<close> converted to \<^verbatim>\<open>size_t\<close>, so the line is not
  bounded: 9000 characters from offset 8191 run over the end of the buffer. The lemmas
  above need two characters left at entry; an append may leave one.
\<close>

theorem debug_wprintf_mem_overrun:
  "debug_wprintf_mem activity_log_init (replicate 16381 65)
     = Inr (False, \<lparr>debug_log = replicate 16381 65 @ [13, 10, 0], debug_log_pos = 16383\<rparr>)
   \<and> debug_wprintf_mem \<lparr>debug_log = replicate 16381 65 @ [13, 10, 0], debug_log_pos = 16383\<rparr>
       (replicate 9000 66) = Inl OutOfBounds"
  by (simp add: debug_wprintf_mem_def activity_log_init_def LOG_CHARS_def to_size_t_def
      vswprintf_def store_def Let_def compact_log_def)

subsection \<open>Error reporter\<close>

text \<open>
  C8. A report whose suppress flag already holds \<open>DEBUG_SUPPRESS\<close> returns
  \<open>ER_CONTINUE\<close>; the state, and with it the list of effects (output, crash log, display),
  and the flag are as before.
\<close>

theorem suppressed_report_is_noop:
  "debug_display_error h s description flags skip context_opt file line func (Some (DEBUG_SUPPRESS h))
     = (Returned ER_CONTINUE, s, Some (DEBUG_SUPPRESS h))"
  by (simp add: debug_display_error_def should_suppress_error_def)

lemma exit_sticky_with_suppress:
  "exit_requested s \<Longrightarrow>
   debug_display_error h s description flags skip context_opt file line func (Some v)
     = (Returned ER_CONTINUE, s, Some v)"
  by (simp add: debug_display_error_def should_suppress_error_def)

lemma carry_out_effects:
  "carry_out_ErrorReaction h s er flags suppress = (r, s', suppress') \<Longrightarrow>
   \<exists>es. effects s' = effects s @ es"
  by (cases er) (auto simp: carry_out_ErrorReaction_def Let_def split: option.splits if_splits)

lemma call_display_effects:
  "call_display_error h s text flags = (er, s') \<Longrightarrow>
   \<exists>es. effects s' = effects s @ AppDisplay text flags # es"
  by (auto simp: call_display_error_def Let_def split: if_splits)

lemma enter_report_effects: "enter_report s = (n, s') \<Longrightarrow> effects s' = effects s"
  by (auto simp: enter_report_def CAS_def Let_def split: if_splits)

lemma report_effects:
  assumes "\<not> should_suppress_error h s suppress"
  shows "\<exists>fn_only line' description' text flags' es.
      effects (fst (snd (debug_display_error h s description flags skip
                           context_opt file line func suppress)))
        = effects s @ Wprintf fn_only line' description' # es
      \<and> AppDisplay text flags' \<in> set es"
proof -
  define description' where "description' = ah_translate h description"
  define flags' where "flags' = (if suppress \<noteq> None then or flags (DE_ALLOW_SUPPRESS h) else flags)"
  define file' where
    "file' = (case file of None \<Rightarrow> ''unknown'' | Some f \<Rightarrow> if f = [] then ''unknown'' else f)"
  define line' where "line' = (if line \<le> 0 then 0 else line)"
  define func' where "func' = (case func of None \<Rightarrow> ''?'' | Some f \<Rightarrow> if f = [] then ''?'' else f)"
  define fn_only where "fn_only = base_name_only h file'"
  define s1 where "s1 = s\<lparr>effects := effects s @ [Wprintf fn_only line' description']\<rparr>"
  define max_chars where "max_chars = (if heap_ok h then 256 * KiB else 128 * KiB)"
  obtain is_nested s2 where enter: "enter_report s1 = (is_nested, s2)"
    by force
  define msg where "msg = build_error_message h True max_chars description' fn_only line' func'
                     skip context_opt is_nested"
  define s3 where "s3 = (if \<not> is_nested then s2\<lparr>effects := effects s2 @ [WriteCrashlog msg]\<rparr> else s2)"
  obtain er s4 where display: "call_display_error h s3 msg flags' = (er, s4)"
    by force
  obtain r s6 suppress' where carry:
    "carry_out_ErrorReaction h (leave_report s4) er flags' suppress = (r, s6, suppress')"
    by (metis prod_cases3)
  have result: "debug_display_error h s description flags skip context_opt file line func suppress
                  = (r, s6, suppress')"
    using assms enter display carry
    unfolding debug_display_error_def Let_def description'_def flags'_def file'_def line'_def
      func'_def fn_only_def s1_def max_chars_def msg_def s3_def
    by simp
  have e1: "effects s2 = effects s @ [Wprintf fn_only line' description']"
    using enter_report_effects [OF enter] by (simp add: s1_def)
  have "\<exists>es3. effects s3 = effects s @ Wprintf fn_only line' description' # es3"
    using e1 by (cases is_nested) (simp_all add: s3_def)
  then obtain es3 where e3: "effects s3 = effects s @ Wprintf fn_only line' description' # es3"
    by blast
  obtain es4 where e4: "effects s4 = effects s3 @ AppDisplay msg flags' # es4"
    using call_display_effects [OF display] by blast
  obtain es6 where e6: "effects s6 = effects (leave_report s4) @ es6"
    using carry_out_effects [OF carry] by blast
  have "effects s6
          = effects s @ Wprintf fn_only line' description' # (es3 @ AppDisplay msg flags' # es4 @ es6)"
    using e3 e4 e6 by (simp add: leave_report_def)
  then show ?thesis
    unfolding result by force
qed

text \<open>
  C1. After \<open>exit_requested\<close> is set, every report is meant to return \<open>ER_CONTINUE\<close> at
  once, with or without a suppress flag. \<^verbatim>\<open>should_suppress_error\<close> returns false for a null
  suppress pointer before it looks at \<open>exit_requested\<close>: such a report is not suppressed,
  it writes its line to the output and calls the display hook.
\<close>

theorem exit_requested_not_consulted_without_suppress:
  "should_suppress_error h (s\<lparr>exit_requested := True\<rparr>) None = False \<and>
   (\<exists>fn_only line' description' text flags' es.
      effects (fst (snd (debug_display_error h (s\<lparr>exit_requested := True\<rparr>) description flags skip
                           context_opt file line func None)))
        = effects s @ Wprintf fn_only line' description' # es
      \<and> AppDisplay text flags' \<in> set es)"
proof -
  have no: "\<not> should_suppress_error h (s\<lparr>exit_requested := True\<rparr>) None"
    by (simp add: should_suppress_error_def)
  show ?thesis
    using no report_effects [OF no, of description flags skip context_opt "file" line func]
    by simp
qed

lemma independent_report_is_outer:
  "full_trace_reports (run_schedule reporter_init [Enter 0, Enter 1, Leave 1, Leave 0, Enter 2]) = [2]"
  by (simp add: run_schedule_def reporter_init_def enter_report_def leave_report_def CAS_def
      full_trace_reports_def)

text \<open>
  C2. While a report holds the guard, every report that starts is meant to be nested,
  so that two full stack traces never run at once. Every report stores 0 in
  \<open>already_in_progress\<close> when it leaves, also a nested one that never acquired the guard.
  Report 0 enters (full trace), report 1 enters (nested) and leaves; report 2 then
  enters while report 0 is still running, finds the guard free, and runs with a full
  trace too.
\<close>

theorem nested_leave_releases_guard:
  "run_schedule reporter_init [Enter 0, Enter 1]
     = (reporter_init\<lparr>already_in_progress := 1\<rparr>, [(0, False), (1, True)])
   \<and> full_trace_reports (run_schedule reporter_init [Enter 0, Enter 1, Leave 1, Enter 2]) = [0, 2]"
  by (simp add: run_schedule_def reporter_init_def enter_report_def leave_report_def CAS_def
      full_trace_reports_def)

subsection \<open>Symbol description cache\<close>

lemma from_cache_loop_empty:
  "symbol (tab ! idx) = 0 \<Longrightarrow> from_cache_loop tab addr idx = Some None"
  by (subst from_cache_loop.simps) simp

lemma from_cache_loop_found:
  "symbol (tab ! idx) \<noteq> 0 \<Longrightarrow> symbol (tab ! idx) = addr \<Longrightarrow>
   from_cache_loop tab addr idx = Some (Some (string (tab ! idx)))"
  by (subst from_cache_loop.simps) simp

lemma from_cache_loop_next:
  "symbol (tab ! idx) \<noteq> 0 \<Longrightarrow> symbol (tab ! idx) \<noteq> addr \<Longrightarrow>
   from_cache_loop tab addr idx = from_cache_loop tab addr ((idx + 1) mod MAX_SYMBOLS)"
  by (subst from_cache_loop.simps) simp

lemma from_cache_loop_skip:
  assumes "idx < MAX_SYMBOLS"
    and "\<And>k. k < m \<Longrightarrow> symbol (tab ! ((idx + k) mod MAX_SYMBOLS)) \<noteq> 0
                      \<and> symbol (tab ! ((idx + k) mod MAX_SYMBOLS)) \<noteq> addr"
  shows "from_cache_loop tab addr idx = from_cache_loop tab addr ((idx + m) mod MAX_SYMBOLS)"
  using assms
proof (induction m arbitrary: idx)
  case 0
  then show ?case by simp
next
  case (Suc m)
  have here: "symbol (tab ! idx) \<noteq> 0 \<and> symbol (tab ! idx) \<noteq> addr"
    using Suc.prems(2) [of 0] Suc.prems(1) by simp
  have next_lt: "(idx + 1) mod MAX_SYMBOLS < MAX_SYMBOLS"
    by (simp add: MAX_SYMBOLS_def)
  have rest: "symbol (tab ! (((idx + 1) mod MAX_SYMBOLS + k) mod MAX_SYMBOLS)) \<noteq> 0
            \<and> symbol (tab ! (((idx + 1) mod MAX_SYMBOLS + k) mod MAX_SYMBOLS)) \<noteq> addr"
    if "k < m" for k
    using Suc.prems(2) [of "Suc k"] that by (simp add: mod_add_left_eq)
  have "from_cache_loop tab addr idx = from_cache_loop tab addr ((idx + 1) mod MAX_SYMBOLS)"
    using here by (simp add: from_cache_loop_next)
  also have "\<dots> = from_cache_loop tab addr (((idx + 1) mod MAX_SYMBOLS + m) mod MAX_SYMBOLS)"
    using Suc.IH [OF next_lt] rest by blast
  also have "((idx + 1) mod MAX_SYMBOLS + m) mod MAX_SYMBOLS = (idx + Suc m) mod MAX_SYMBOLS"
    by (simp add: mod_add_left_eq)
  finally show ?case .
qed

lemma from_cache_loop_returns:
  assumes "from_cache_loop tab addr idx = Some y" and "idx < MAX_SYMBOLS"
  shows "\<exists>m. (\<forall>k<m. symbol (tab ! ((idx + k) mod MAX_SYMBOLS)) \<noteq> 0
                  \<and> symbol (tab ! ((idx + k) mod MAX_SYMBOLS)) \<noteq> addr)
           \<and> (symbol (tab ! ((idx + m) mod MAX_SYMBOLS)) = 0 \<and> y = None
              \<or> symbol (tab ! ((idx + m) mod MAX_SYMBOLS)) \<noteq> 0
                \<and> symbol (tab ! ((idx + m) mod MAX_SYMBOLS)) = addr
                \<and> y = Some (string (tab ! ((idx + m) mod MAX_SYMBOLS))))"
proof -
  let ?stop = "\<lambda>(tab :: Symbol list) addr i (y :: string option).
        symbol (tab ! i) = 0 \<and> y = None
        \<or> symbol (tab ! i) \<noteq> 0 \<and> symbol (tab ! i) = addr \<and> y = Some (string (tab ! i))"
  let ?P = "\<lambda>(tab :: Symbol list) addr idx (y :: string option).
        idx < MAX_SYMBOLS \<longrightarrow>
        (\<exists>m. (\<forall>k<m. symbol (tab ! ((idx + k) mod MAX_SYMBOLS)) \<noteq> 0
                  \<and> symbol (tab ! ((idx + k) mod MAX_SYMBOLS)) \<noteq> addr)
           \<and> ?stop tab addr ((idx + m) mod MAX_SYMBOLS) y)"
  have "?P tab addr idx y"
  proof (rule from_cache_loop.raw_induct [where P = ?P, OF _ assms(1)])
    fix loop :: "Symbol list \<Rightarrow> nat \<Rightarrow> nat \<Rightarrow> string option option"
    fix tab addr idx y
    assume IH: "\<And>tab addr idx y. loop tab addr idx = Some y \<Longrightarrow> ?P tab addr idx y"
      and body: "(if symbol (tab ! idx) = 0 then Some None
                  else if symbol (tab ! idx) = addr then Some (Some (string (tab ! idx)))
                  else loop tab addr ((idx + 1) mod MAX_SYMBOLS)) = Some y"
    show "?P tab addr idx y"
    proof (intro impI)
      assume lt: "idx < MAX_SYMBOLS"
      show "\<exists>m. (\<forall>k<m. symbol (tab ! ((idx + k) mod MAX_SYMBOLS)) \<noteq> 0
                  \<and> symbol (tab ! ((idx + k) mod MAX_SYMBOLS)) \<noteq> addr)
           \<and> ?stop tab addr ((idx + m) mod MAX_SYMBOLS) y"
      proof (cases "symbol (tab ! idx) = 0 \<or> symbol (tab ! idx) = addr")
        case True
        then have "?stop tab addr idx y"
          using body by (auto split: if_splits)
        then have "(\<forall>k<0. symbol (tab ! ((idx + k) mod MAX_SYMBOLS)) \<noteq> 0
                  \<and> symbol (tab ! ((idx + k) mod MAX_SYMBOLS)) \<noteq> addr)
           \<and> ?stop tab addr ((idx + 0) mod MAX_SYMBOLS) y"
          using lt by simp
        then show ?thesis by blast
      next
        case False
        then have here: "symbol (tab ! idx) \<noteq> 0" "symbol (tab ! idx) \<noteq> addr"
          by simp_all
        have rec: "loop tab addr ((idx + 1) mod MAX_SYMBOLS) = Some y"
          using body here by simp
        have next_lt: "(idx + 1) mod MAX_SYMBOLS < MAX_SYMBOLS"
          by (simp add: MAX_SYMBOLS_def)
        from IH [OF rec] next_lt obtain m where
          m: "\<forall>k<m. symbol (tab ! (((idx + 1) mod MAX_SYMBOLS + k) mod MAX_SYMBOLS)) \<noteq> 0
                  \<and> symbol (tab ! (((idx + 1) mod MAX_SYMBOLS + k) mod MAX_SYMBOLS)) \<noteq> addr"
          and z: "?stop tab addr (((idx + 1) mod MAX_SYMBOLS + m) mod MAX_SYMBOLS) y"
          by blast
        have shift: "((idx + 1) mod MAX_SYMBOLS + k) mod MAX_SYMBOLS = (idx + Suc k) mod MAX_SYMBOLS" for k
          by (simp add: mod_add_left_eq)
        have "\<forall>k<Suc m. symbol (tab ! ((idx + k) mod MAX_SYMBOLS)) \<noteq> 0
                  \<and> symbol (tab ! ((idx + k) mod MAX_SYMBOLS)) \<noteq> addr"
        proof (intro allI impI)
          fix k assume "k < Suc m"
          show "symbol (tab ! ((idx + k) mod MAX_SYMBOLS)) \<noteq> 0
                  \<and> symbol (tab ! ((idx + k) mod MAX_SYMBOLS)) \<noteq> addr"
          proof (cases k)
            case 0
            then show ?thesis using here lt by simp
          next
            case (Suc j)
            then have "j < m" using \<open>k < Suc m\<close> by simp
            then have "symbol (tab ! (((idx + 1) mod MAX_SYMBOLS + j) mod MAX_SYMBOLS)) \<noteq> 0
                  \<and> symbol (tab ! (((idx + 1) mod MAX_SYMBOLS + j) mod MAX_SYMBOLS)) \<noteq> addr"
              using m by blast
            then show ?thesis
              unfolding shift Suc .
          qed
        qed
        moreover have "?stop tab addr ((idx + Suc m) mod MAX_SYMBOLS) y"
          using z unfolding shift .
        ultimately show ?thesis by blast
      qed
    qed
  qed
  then show ?thesis using assms(2) by blast
qed

lemma from_cache_loop_miss:
  assumes "from_cache_loop tab addr idx = Some None" and "idx < MAX_SYMBOLS"
  shows "\<exists>m. (\<forall>k<m. symbol (tab ! ((idx + k) mod MAX_SYMBOLS)) \<noteq> 0
                  \<and> symbol (tab ! ((idx + k) mod MAX_SYMBOLS)) \<noteq> addr)
           \<and> symbol (tab ! ((idx + m) mod MAX_SYMBOLS)) = 0"
  using from_cache_loop_returns [OF assms] by auto

lemma from_cache_loop_hit:
  assumes "from_cache_loop tab addr idx = Some (Some str)" and "idx < MAX_SYMBOLS"
  shows "\<exists>m. (\<forall>k<m. symbol (tab ! ((idx + k) mod MAX_SYMBOLS)) \<noteq> 0
                  \<and> symbol (tab ! ((idx + k) mod MAX_SYMBOLS)) \<noteq> addr)
           \<and> symbol (tab ! ((idx + m) mod MAX_SYMBOLS)) \<noteq> 0
           \<and> symbol (tab ! ((idx + m) mod MAX_SYMBOLS)) = addr
           \<and> string (tab ! ((idx + m) mod MAX_SYMBOLS)) = str"
  using from_cache_loop_returns [OF assms] by auto

lemma find_empty_slot_here:
  "symbol (tab ! idx) = 0 \<Longrightarrow> find_empty_slot tab idx jumps = Some (idx, jumps)"
  by (subst find_empty_slot.simps) simp

lemma find_empty_slot_first:
  assumes "idx < MAX_SYMBOLS"
    and "\<And>k. k < m \<Longrightarrow> symbol (tab ! ((idx + k) mod MAX_SYMBOLS)) \<noteq> 0"
    and "symbol (tab ! ((idx + m) mod MAX_SYMBOLS)) = 0"
  shows "find_empty_slot tab idx jumps = Some ((idx + m) mod MAX_SYMBOLS, jumps + m)"
  using assms
proof (induction m arbitrary: idx jumps)
  case 0
  then show ?case
    by (subst find_empty_slot.simps) simp
next
  case (Suc m)
  have here: "symbol (tab ! idx) \<noteq> 0"
    using Suc.prems(2) [of 0] Suc.prems(1) by simp
  have next_lt: "(idx + 1) mod MAX_SYMBOLS < MAX_SYMBOLS"
    by (simp add: MAX_SYMBOLS_def)
  have shift: "((idx + 1) mod MAX_SYMBOLS + k) mod MAX_SYMBOLS = (idx + Suc k) mod MAX_SYMBOLS" for k
    by (simp add: mod_add_left_eq)
  have rest: "symbol (tab ! (((idx + 1) mod MAX_SYMBOLS + k) mod MAX_SYMBOLS)) \<noteq> 0" if "k < m" for k
    unfolding shift using Suc.prems(2) [of "Suc k"] that by simp
  have last: "symbol (tab ! (((idx + 1) mod MAX_SYMBOLS + m) mod MAX_SYMBOLS)) = 0"
    unfolding shift using Suc.prems(3) .
  have "find_empty_slot tab idx jumps
          = find_empty_slot tab ((idx + 1) mod MAX_SYMBOLS) (jumps + 1)"
    using here by (subst find_empty_slot.simps) simp
  also have "\<dots> = Some (((idx + 1) mod MAX_SYMBOLS + m) mod MAX_SYMBOLS, jumps + 1 + m)"
    using Suc.IH [OF next_lt rest last] .
  finally show ?case
    unfolding shift by simp
qed

lemma lookup_after_insert:
  assumes miss: "from_cache_loop tab addr idx = Some None"
    and idx: "idx < MAX_SYMBOLS" and len: "length tab = MAX_SYMBOLS" and addr: "addr \<noteq> 0"
  shows "\<exists>slot m. find_empty_slot tab idx jumps = Some (slot, jumps + m)
           \<and> from_cache_loop (tab[slot := \<lparr>symbol = addr, string = str\<rparr>]) addr idx
               = Some (Some str)"
proof -
  obtain m where
    path: "\<And>k. k < m \<Longrightarrow> symbol (tab ! ((idx + k) mod MAX_SYMBOLS)) \<noteq> 0
                  \<and> symbol (tab ! ((idx + k) mod MAX_SYMBOLS)) \<noteq> addr"
    and empty: "symbol (tab ! ((idx + m) mod MAX_SYMBOLS)) = 0"
    using from_cache_loop_miss [OF miss idx] by blast
  let ?slot = "(idx + m) mod MAX_SYMBOLS"
  let ?tab = "tab[?slot := \<lparr>symbol = addr, string = str\<rparr>]"
  have slot_lt: "?slot < length tab"
    using len by (simp add: MAX_SYMBOLS_def)
  have found: "find_empty_slot tab idx jumps = Some (?slot, jumps + m)"
    using find_empty_slot_first [OF idx _ empty] path by blast
  have path': "symbol (?tab ! ((idx + k) mod MAX_SYMBOLS)) \<noteq> 0
                  \<and> symbol (?tab ! ((idx + k) mod MAX_SYMBOLS)) \<noteq> addr" if "k < m" for k
  proof -
    have "(idx + k) mod MAX_SYMBOLS \<noteq> ?slot"
      using path [OF that] empty by metis
    then show ?thesis
      using path [OF that] by simp
  qed
  have "from_cache_loop ?tab addr idx = from_cache_loop ?tab addr ?slot"
    using from_cache_loop_skip [OF idx path'] by blast
  also have "\<dots> = Some (Some str)"
    using from_cache_loop_found [of ?tab ?slot addr] slot_lt addr by simp
  finally show ?thesis
    using found by blast
qed

lemma hash_lt: "hash addr < MAX_SYMBOLS"
  by (simp add: hash_def MAX_SYMBOLS_def)

lemma build_keeps_table:
  assumes "symbol_string_build p s addr name file line = Ok (r, s1)"
  shows "symbols s1 = symbols s \<and> total_symbols s1 = total_symbols s"
  using assms
  by (auto simp: symbol_string_build_def Let_def split: if_splits prod.splits result.splits)

lemma add_to_cache_result:
  assumes add: "symbol_string_add_to_cache p s1 str addr = Some (Ok s')"
    and room: "total_symbols s1 < MAX_SYMBOLS"
  shows "\<exists>tab slot jumps.
           (symbols s1 = Some tab \<or> symbols s1 = None \<and> tab = replicate MAX_SYMBOLS \<lparr>symbol = 0, string = []\<rparr>)
         \<and> find_empty_slot tab (hash addr) 0 = Some (slot, jumps)
         \<and> symbols s' = Some (tab[slot := \<lparr>symbol = addr, string = str\<rparr>])"
proof (cases "symbols s1")
  case None
  show ?thesis
  proof (cases "calloc_ok p")
    case True
    then show ?thesis
      using add room None
      by (auto simp: symbol_string_add_to_cache_def Let_def split: option.splits if_splits prod.splits)
  next
    case False
    then show ?thesis
      using add room None
      by (simp add: symbol_string_add_to_cache_def Let_def)
  qed
next
  case (Some tab)
  then show ?thesis
    using add room
    by (auto simp: symbol_string_add_to_cache_def Let_def split: option.splits if_splits prod.splits)
qed

lemma find_empty_slot_result:
  assumes "find_empty_slot tab idx jumps = Some (slot, jumps')"
  shows "symbol (tab ! slot) = 0"
proof -
  let ?P = "\<lambda>(tab :: Symbol list) (idx :: nat) (jumps :: nat) (y :: nat \<times> nat).
              symbol (tab ! fst y) = 0"
  have "?P tab idx jumps (slot, jumps')"
  proof (rule find_empty_slot.raw_induct [where P = ?P, OF _ assms])
    fix loop :: "Symbol list \<Rightarrow> nat \<Rightarrow> nat \<Rightarrow> (nat \<times> nat) option"
    fix tab idx jumps y
    assume IH: "\<And>tab idx jumps y. loop tab idx jumps = Some y \<Longrightarrow> ?P tab idx jumps y"
      and body: "(if symbol (tab ! idx) = 0 then Some (idx, jumps)
                  else loop tab ((idx + 1) mod MAX_SYMBOLS) (jumps + 1)) = Some y"
    show "?P tab idx jumps y"
    proof (cases "symbol (tab ! idx) = 0")
      case True
      then show ?thesis using body by auto
    next
      case False
      then have "loop tab ((idx + 1) mod MAX_SYMBOLS) (jumps + 1) = Some y"
        using body by simp
      then show ?thesis by (rule IH)
    qed
  qed
  then show ?thesis by simp
qed

lemma hit_kept_by_insert:
  assumes hit: "from_cache_loop tab addr idx = Some (Some str)" and idx: "idx < MAX_SYMBOLS"
    and empty: "symbol (tab ! slot) = 0"
  shows "from_cache_loop (tab[slot := entry]) addr idx = Some (Some str)"
proof -
  obtain m where
    path: "\<And>k. k < m \<Longrightarrow> symbol (tab ! ((idx + k) mod MAX_SYMBOLS)) \<noteq> 0
                  \<and> symbol (tab ! ((idx + k) mod MAX_SYMBOLS)) \<noteq> addr"
    and found: "symbol (tab ! ((idx + m) mod MAX_SYMBOLS)) \<noteq> 0"
      "symbol (tab ! ((idx + m) mod MAX_SYMBOLS)) = addr"
      "string (tab ! ((idx + m) mod MAX_SYMBOLS)) = str"
    using from_cache_loop_hit [OF hit idx] by blast
  let ?tab = "tab[slot := entry]"
  have same: "?tab ! i = tab ! i" if "symbol (tab ! i) \<noteq> 0" for i
  proof -
    have "i \<noteq> slot"
      using that empty by metis
    then show ?thesis by simp
  qed
  have path': "symbol (?tab ! ((idx + k) mod MAX_SYMBOLS)) \<noteq> 0
                  \<and> symbol (?tab ! ((idx + k) mod MAX_SYMBOLS)) \<noteq> addr" if "k < m" for k
    using path [OF that] same by simp
  have "from_cache_loop ?tab addr idx = from_cache_loop ?tab addr ((idx + m) mod MAX_SYMBOLS)"
    using from_cache_loop_skip [OF idx path'] by blast
  also have "\<dots> = Some (Some str)"
    using from_cache_loop_found [of ?tab "(idx + m) mod MAX_SYMBOLS" addr] found same by simp
  finally show ?thesis .
qed

lemma add_to_cache_table:
  assumes "symbol_string_add_to_cache p s str a = Some (Ok s')" and "symbols s = Some tab"
  shows "symbols s' = Some tab
         \<or> (\<exists>slot. symbol (tab ! slot) = 0
                 \<and> symbols s' = Some (tab[slot := \<lparr>symbol = a, string = str\<rparr>]))"
proof (cases "total_symbols s \<ge> MAX_SYMBOLS")
  case True
  then show ?thesis
    using assms by (auto simp: symbol_string_add_to_cache_def)
next
  case False
  then obtain slot jumps where found: "find_empty_slot tab (hash a) 0 = Some (slot, jumps)"
    and s': "symbols s' = Some (tab[slot := \<lparr>symbol = a, string = str\<rparr>])"
    using assms
    by (auto simp: symbol_string_add_to_cache_def Let_def split: option.splits prod.splits)
  have "symbol (tab ! slot) = 0"
    using found by (rule find_empty_slot_result)
  then show ?thesis
    using s' by blast
qed

lemma call_table:
  assumes call: "debug_get_symbol_string q s a nm fl ln = Some (Ok (r, s'))"
    and tab: "symbols s = Some tab"
  shows "symbols s' = Some tab
         \<or> (\<exists>slot entry. symbol (tab ! slot) = 0 \<and> symbols s' = Some (tab[slot := entry]))"
proof (cases "symbol_string_from_cache s a")
  case None
  then show ?thesis
    using call by (simp add: debug_get_symbol_string_def)
next
  case (Some found)
  show ?thesis
  proof (cases found)
    case (Some str)
    then show ?thesis
      using call tab \<open>symbol_string_from_cache s a = Some found\<close>
      by (simp add: debug_get_symbol_string_def)
  next
    case None
    show ?thesis
    proof (cases "symbol_string_build q s a nm fl ln")
      case (Fault f)
      then show ?thesis
        using call None \<open>symbol_string_from_cache s a = Some found\<close>
        by (simp add: debug_get_symbol_string_def)
    next
      case (Ok built)
      obtain b s1 where built: "built = (b, s1)"
        by (cases built)
      have s1: "symbols s1 = Some tab"
        using build_keeps_table [of q s a nm fl ln b s1] Ok built tab by simp
      show ?thesis
      proof (cases b)
        case None
        then have "s' = s1"
          using call Ok built \<open>found = None\<close> \<open>symbol_string_from_cache s a = Some found\<close>
          by (simp add: debug_get_symbol_string_def)
        then show ?thesis
          using s1 by simp
      next
        case (Some str)
        then have "symbol_string_add_to_cache q s1 str a = Some (Ok s')"
          using call Ok built \<open>found = None\<close> \<open>symbol_string_from_cache s a = Some found\<close>
          by (auto simp: debug_get_symbol_string_def split: option.splits result.splits)
        then show ?thesis
          using add_to_cache_table [OF _ s1] by blast
      qed
    qed
  qed
qed

lemma call_keeps_hit:
  assumes hit: "symbol_string_from_cache s addr = Some (Some str)"
    and call: "debug_get_symbol_string q s a nm fl ln = Some (Ok (r, s'))"
  shows "symbol_string_from_cache s' addr = Some (Some str)"
proof -
  obtain tab where tab: "symbols s = Some tab"
    and loop: "from_cache_loop tab addr (hash addr) = Some (Some str)"
    using hit by (cases "symbols s") (simp_all add: symbol_string_from_cache_def)
  from call_table [OF call tab] show ?thesis
  proof
    assume "symbols s' = Some tab"
    then show ?thesis
      using loop by (simp add: symbol_string_from_cache_def)
  next
    assume "\<exists>slot entry. symbol (tab ! slot) = 0 \<and> symbols s' = Some (tab[slot := entry])"
    then obtain slot entry where "symbol (tab ! slot) = 0"
      and s': "symbols s' = Some (tab[slot := entry])"
      by blast
    then have "from_cache_loop (tab[slot := entry]) addr (hash addr) = Some (Some str)"
      using hit_kept_by_insert [OF loop hash_lt] by blast
    then show ?thesis
      using s' by (simp add: symbol_string_from_cache_def)
  qed
qed

lemma calls_keep_hit:
  assumes "symbol_string_from_cache s addr = Some (Some str)"
    and "debug_get_symbol_string_calls s calls = Some s'"
  shows "symbol_string_from_cache s' addr = Some (Some str)"
  using assms
proof (induction calls arbitrary: s)
  case Nil
  then show ?case by simp
next
  case (Cons c calls)
  obtain q a nm fl ln where c: "c = (q, a, nm, fl, ln)"
    by (cases c) auto
  obtain r s1 where step: "debug_get_symbol_string q s a nm fl ln = Some (Ok (r, s1))"
    and rest: "debug_get_symbol_string_calls s1 calls = Some s'"
    using Cons.prems(2) unfolding c
    by (auto split: option.splits result.splits prod.splits)
  have "symbol_string_from_cache s1 addr = Some (Some str)"
    using Cons.prems(1) step by (rule call_keeps_hit)
  then show ?case
    using rest by (rule Cons.IH)
qed

lemma first_call_caches:
  assumes call: "debug_get_symbol_string p s addr name file line = Some (Ok (Some str, s'))"
    and addr: "addr \<noteq> 0" and room: "total_symbols s < MAX_SYMBOLS" and ok: "table_ok s"
  shows "symbol_string_from_cache s' addr = Some (Some str)"
proof -
  consider (hit) str0 where "symbol_string_from_cache s addr = Some (Some str0)"
    | (miss) "symbol_string_from_cache s addr = Some None"
    using call by (cases "symbol_string_from_cache s addr") (auto simp: debug_get_symbol_string_def)
  then show ?thesis
  proof cases
    case hit
    then have "str = str0" "s' = s"
      using call by (simp_all add: debug_get_symbol_string_def)
    then show ?thesis
      using hit by simp
  next
    case miss
    obtain s1 where build: "symbol_string_build p s addr name file line = Ok (Some str, s1)"
      and add: "symbol_string_add_to_cache p s1 str addr = Some (Ok s')"
      using call miss
      by (auto simp: debug_get_symbol_string_def split: result.splits option.splits prod.splits)
    have same: "symbols s1 = symbols s" "total_symbols s1 = total_symbols s"
      using build_keeps_table [OF build] by simp_all
    obtain tab slot jumps where
      tab: "symbols s1 = Some tab \<or> symbols s1 = None \<and> tab = replicate MAX_SYMBOLS \<lparr>symbol = 0, string = []\<rparr>"
      and slot: "find_empty_slot tab (hash addr) 0 = Some (slot, jumps)"
      and s': "symbols s' = Some (tab[slot := \<lparr>symbol = addr, string = str\<rparr>])"
      using add_to_cache_result [OF add] room same by auto
    have len: "length tab = MAX_SYMBOLS"
      using tab ok same by (auto simp: table_ok_def)
    have miss_tab: "from_cache_loop tab addr (hash addr) = Some None"
    proof (cases "symbols s")
      case None
      then have "tab = replicate MAX_SYMBOLS \<lparr>symbol = 0, string = []\<rparr>"
        using tab same by simp
      then show ?thesis
        using hash_lt [of addr] by (simp add: from_cache_loop_empty)
    next
      case (Some t)
      then show ?thesis
        using miss tab same by (simp add: symbol_string_from_cache_def)
    qed
    obtain slot' m where "find_empty_slot tab (hash addr) 0 = Some (slot', 0 + m)"
      and "from_cache_loop (tab[slot' := \<lparr>symbol = addr, string = str\<rparr>]) addr (hash addr)
             = Some (Some str)"
      using lookup_after_insert [OF miss_tab hash_lt len addr] by blast
    then have "from_cache_loop (tab[slot := \<lparr>symbol = addr, string = str\<rparr>]) addr (hash addr)
             = Some (Some str)"
      using slot by simp
    then show ?thesis
      using s' by (simp add: symbol_string_from_cache_def)
  qed
qed

lemma find_empty_slot_next:
  "symbol (tab ! idx) \<noteq> 0 \<Longrightarrow>
   find_empty_slot tab idx jumps = find_empty_slot tab ((idx + 1) mod MAX_SYMBOLS) (jumps + 1)"
  by (subst find_empty_slot.simps) simp

lemmas cache_eval =
  debug_get_symbol_string_def symbol_string_from_cache_def symbol_cache_init_def
  symbol_string_build_def example_platform_def STRING_MAX_def STRING_BUF_SIZE_def KiB_def
  resolve_unknown_def format_symbol_def snprintf_def hexadecimal.simps decimal.simps format_05d_def
  symbol_string_add_to_cache_def MAX_SYMBOLS_def hash_def Let_def numeral_3_eq_3 to_size_t_def

lemmas probe_eval =
  from_cache_loop_empty from_cache_loop_found from_cache_loop_next
  find_empty_slot_here find_empty_slot_next

lemma cut_prefix_returned:
  "format_symbol example_platform 60000 4096 (Some ''nm'') (Some (replicate 1200 CHR ''f'')) 42
     = Ok (replicate 998 CHR ''f'')"
  by (simp add: format_symbol_def example_platform_def snprintf_def STRING_MAX_def to_size_t_def
      Let_def format_05d_def decimal.simps numeral_3_eq_3)

lemma cut_prefix_at_999:
  "format_symbol example_platform 60000 4096 (Some ''nm'') (Some (replicate 992 CHR ''f'')) 42
     = Ok (replicate 992 CHR ''f'' @ '':00042'')"
  by (simp add: format_symbol_def example_platform_def snprintf_def STRING_MAX_def to_size_t_def
      Let_def format_05d_def decimal.simps numeral_3_eq_3)

text \<open>
  C9. A call of \<^verbatim>\<open>debug_get_symbol_string\<close> on an address returns a string while the
  table is not full (\<open>total_symbols < MAX_SYMBOLS\<close>); any calls follow, on any addresses,
  with any hints, on any platform, each of which returns. A later call on the first address
  then returns the same string and leaves the state as it is, whatever name, file and line
  it is given. The address is not null: a slot is valid iff its address is not 0, so a
  call never caches a string for the null address. (An insert goes to the first empty slot
  of its probe path and so changes no slot on the path to an entry: \<open>hit_kept_by_insert\<close>.)
\<close>

theorem cached_string_returned_again:
  assumes first: "debug_get_symbol_string p s addr name file line = Some (Ok (Some str, s1))"
    and addr: "addr \<noteq> 0" and room: "total_symbols s < MAX_SYMBOLS" and ok: "table_ok s"
    and between: "debug_get_symbol_string_calls s1 calls = Some s2"
  shows "debug_get_symbol_string p' s2 addr name' file' line' = Some (Ok (Some str, s2))"
proof -
  have "symbol_string_from_cache s1 addr = Some (Some str)"
    using first addr room ok by (rule first_call_caches)
  then have "symbol_string_from_cache s2 addr = Some (Some str)"
    using between by (rule calls_keep_hit)
  then show ?thesis
    by (simp add: debug_get_symbol_string_def)
qed

theorem cached_string_returned_again_witness:
  "let empty = \<lparr>symbol = 0, string = []\<rparr>;
       s0 = \<lparr>string_buf = True, string_buf_pos = 8,
             symbols = Some ((replicate MAX_SYMBOLS empty)
                               [1024 := \<lparr>symbol = 12288, string = ''0x3000 ''\<rparr>]),
             total_symbols = 1, hash_jumps = 0, warnings = []\<rparr>;
       s1 = \<lparr>string_buf = True, string_buf_pos = 36,
             symbols = Some ((replicate MAX_SYMBOLS empty)
                               [1024 := \<lparr>symbol = 12288, string = ''0x3000 ''\<rparr>,
                                1025 := \<lparr>symbol = 4096, string = ''debug.cpp:00042 caller_name''\<rparr>]),
             total_symbols = 2, hash_jumps = 1, warnings = []\<rparr>;
       s2 = \<lparr>string_buf = True, string_buf_pos = 44,
             symbols = Some ((replicate MAX_SYMBOLS empty)
                               [1024 := \<lparr>symbol = 12288, string = ''0x3000 ''\<rparr>,
                                1025 := \<lparr>symbol = 4096, string = ''debug.cpp:00042 caller_name''\<rparr>,
                                1026 := \<lparr>symbol = 20480, string = ''0x5000 ''\<rparr>]),
             total_symbols = 3, hash_jumps = 3, warnings = []\<rparr>
   in debug_get_symbol_string quiet_platform symbol_cache_init 12288 None None 0
        = Some (Ok (Some ''0x3000 '', s0))
    \<and> debug_get_symbol_string example_platform s0 4096
          (Some ''caller_name'') (Some ''/src/lib/debug.cpp'') 42
        = Some (Ok (Some ''debug.cpp:00042 caller_name'', s1))
    \<and> (4096 :: nat) \<noteq> 0 \<and> total_symbols s0 < MAX_SYMBOLS \<and> table_ok s0
    \<and> debug_get_symbol_string_calls s1
          [(quiet_platform, 20480, None, None, 0), (example_platform, 12288, Some ''x'', None, 0)]
        = Some s2
    \<and> debug_get_symbol_string quiet_platform s2 4096 None (Some ''other.cpp'') 7
        = Some (Ok (Some ''debug.cpp:00042 caller_name'', s2))"
proof -
  let ?empty = "\<lparr>symbol = 0, string = []\<rparr>"
  let ?s0 = "\<lparr>string_buf = True, string_buf_pos = 8,
             symbols = Some ((replicate MAX_SYMBOLS ?empty)
                               [1024 := \<lparr>symbol = 12288, string = ''0x3000 ''\<rparr>]),
             total_symbols = 1, hash_jumps = 0, warnings = []\<rparr>"
  let ?s1 = "\<lparr>string_buf = True, string_buf_pos = 36,
             symbols = Some ((replicate MAX_SYMBOLS ?empty)
                               [1024 := \<lparr>symbol = 12288, string = ''0x3000 ''\<rparr>,
                                1025 := \<lparr>symbol = 4096, string = ''debug.cpp:00042 caller_name''\<rparr>]),
             total_symbols = 2, hash_jumps = 1, warnings = []\<rparr>"
  let ?s2 = "\<lparr>string_buf = True, string_buf_pos = 44,
             symbols = Some ((replicate MAX_SYMBOLS ?empty)
                               [1024 := \<lparr>symbol = 12288, string = ''0x3000 ''\<rparr>,
                                1025 := \<lparr>symbol = 4096, string = ''debug.cpp:00042 caller_name''\<rparr>,
                                1026 := \<lparr>symbol = 20480, string = ''0x5000 ''\<rparr>]),
             total_symbols = 3, hash_jumps = 3, warnings = []\<rparr>"
  have start: "debug_get_symbol_string quiet_platform symbol_cache_init 12288 None None 0
        = Some (Ok (Some ''0x3000 '', ?s0))"
    by (simp add: cache_eval quiet_platform_def probe_eval)
  have first: "debug_get_symbol_string example_platform ?s0 4096
          (Some ''caller_name'') (Some ''/src/lib/debug.cpp'') 42
        = Some (Ok (Some ''debug.cpp:00042 caller_name'', ?s1))"
    by (simp add: cache_eval probe_eval)
  have addr: "(4096 :: nat) \<noteq> 0"
    by simp
  have room: "total_symbols ?s0 < MAX_SYMBOLS"
    by (simp add: MAX_SYMBOLS_def)
  have ok: "table_ok ?s0"
    by (simp add: table_ok_def)
  have between: "debug_get_symbol_string_calls ?s1
          [(quiet_platform, 20480, None, None, 0), (example_platform, 12288, Some ''x'', None, 0)]
        = Some ?s2"
    by (simp add: cache_eval quiet_platform_def probe_eval)
  show ?thesis
    unfolding Let_def
    using start first addr room ok between
      cached_string_returned_again [OF first addr room ok between,
        of quiet_platform None "Some ''other.cpp''" 7]
    by blast
qed

lemma from_cache_loop_full:
  assumes full: "\<forall>i<MAX_SYMBOLS. symbol (tab ! i) \<noteq> 0 \<and> symbol (tab ! i) \<noteq> addr"
    and idx: "idx < MAX_SYMBOLS"
  shows "from_cache_loop tab addr idx = None"
proof (cases "from_cache_loop tab addr idx")
  case None
  then show ?thesis .
next
  case (Some y)
  let ?P = "\<lambda>(tab :: Symbol list) addr idx (y :: string option).
        (\<forall>i<MAX_SYMBOLS. symbol (tab ! i) \<noteq> 0 \<and> symbol (tab ! i) \<noteq> addr)
          \<longrightarrow> idx < MAX_SYMBOLS \<longrightarrow> False"
  have "?P tab addr idx y"
  proof (rule from_cache_loop.raw_induct [where P = ?P, OF _ Some])
    fix loop :: "Symbol list \<Rightarrow> nat \<Rightarrow> nat \<Rightarrow> string option option"
    fix tab addr idx y
    assume IH: "\<And>tab addr idx y. loop tab addr idx = Some y \<Longrightarrow> ?P tab addr idx y"
      and body: "(if symbol (tab ! idx) = 0 then Some None
                  else if symbol (tab ! idx) = addr then Some (Some (string (tab ! idx)))
                  else loop tab addr ((idx + 1) mod MAX_SYMBOLS)) = Some y"
    show "?P tab addr idx y"
    proof (intro impI)
      assume full: "\<forall>i<MAX_SYMBOLS. symbol (tab ! i) \<noteq> 0 \<and> symbol (tab ! i) \<noteq> addr"
        and lt: "idx < MAX_SYMBOLS"
      have "loop tab addr ((idx + 1) mod MAX_SYMBOLS) = Some y"
        using body full lt by simp
      moreover have "(idx + 1) mod MAX_SYMBOLS < MAX_SYMBOLS"
        by (simp add: MAX_SYMBOLS_def)
      ultimately show False
        using IH full by blast
    qed
  qed
  then show ?thesis
    using full idx by blast
qed

lemma full_table_unchanged:
  assumes "debug_get_symbol_string p s addr name file line = Some (Ok (r, s'))"
    and "total_symbols s \<ge> MAX_SYMBOLS" and "symbols s = Some tab"
  shows "symbols s' = Some tab"
  using assms
  by (auto simp: debug_get_symbol_string_def symbol_string_add_to_cache_def Let_def
      dest!: build_keeps_table split: option.splits result.splits prod.splits if_splits)

lemma length_hexadecimal: "n < 16 ^ Suc k \<Longrightarrow> length (hexadecimal n) \<le> Suc k"
proof (induction k arbitrary: n)
  case 0
  then show ?case by (subst hexadecimal.simps) simp
next
  case (Suc k)
  show ?case
  proof (cases "n < 16")
    case True
    then show ?thesis by (subst hexadecimal.simps) simp
  next
    case False
    have "n div 16 < 16 ^ Suc k"
      using Suc.prems by (simp add: less_mult_imp_div_less mult.commute)
    then have "length (hexadecimal (n div 16)) \<le> Suc k"
      by (rule Suc.IH)
    then show ?thesis
      using False by (subst hexadecimal.simps) simp
  qed
qed

lemma length_address_description: "k \<le> MAX_SYMBOLS \<Longrightarrow> length (address_description k) \<le> 7"
proof -
  assume "k \<le> MAX_SYMBOLS"
  then have "4 * k < 16 ^ Suc 3"
    by (simp add: MAX_SYMBOLS_def)
  then have "length (hexadecimal (4 * k)) \<le> Suc 3"
    by (rule length_hexadecimal)
  then show ?thesis
    by (simp add: address_description_def)
qed

lemma filled_pos: "n \<le> MAX_SYMBOLS \<Longrightarrow> (\<Sum>k = 1..n. length (address_description k) + 1) \<le> 8 * n"
proof (induction n)
  case 0
  then show ?case by simp
next
  case (Suc n)
  then have "length (address_description (Suc n)) \<le> 7"
    using length_address_description by blast
  then show ?case
    using Suc by simp
qed

lemma filled_table_nth:
  "i < MAX_SYMBOLS \<Longrightarrow> filled_table n ! i =
     (if 0 < i \<and> i \<le> n then \<lparr>symbol = 4 * i, string = address_description i\<rparr>
               else if i = 0 \<and> n = MAX_SYMBOLS then \<lparr>symbol = 4 * MAX_SYMBOLS, string = address_description MAX_SYMBOLS\<rparr>
               else \<lparr>symbol = 0, string = []\<rparr>)"
  by (simp add: filled_table_def)

lemma filled_table_update:
  assumes "n < MAX_SYMBOLS"
  shows "(filled_table n)[Suc n mod MAX_SYMBOLS := \<lparr>symbol = 4 * Suc n, string = address_description (Suc n)\<rparr>]
           = filled_table (Suc n)"
proof (rule nth_equalityI)
  show "length ((filled_table n)[Suc n mod MAX_SYMBOLS := \<lparr>symbol = 4 * Suc n, string = address_description (Suc n)\<rparr>])
          = length (filled_table (Suc n))"
    by (simp add: filled_table_def)
next
  fix i
  assume "i < length ((filled_table n)[Suc n mod MAX_SYMBOLS := \<lparr>symbol = 4 * Suc n, string = address_description (Suc n)\<rparr>])"
  then have i: "i < MAX_SYMBOLS"
    by (simp add: filled_table_def)
  have len: "length (filled_table n) = MAX_SYMBOLS"
    by (simp add: filled_table_def)
  show "(filled_table n)[Suc n mod MAX_SYMBOLS := \<lparr>symbol = 4 * Suc n, string = address_description (Suc n)\<rparr>] ! i
          = filled_table (Suc n) ! i"
  proof (cases "Suc n = MAX_SYMBOLS")
    case True
    then show ?thesis
      using i assms len by (cases "i = 0") (simp_all add: filled_table_nth nth_list_update)
  next
    case False
    then have "Suc n mod MAX_SYMBOLS = Suc n"
      using assms by simp
    then show ?thesis
      using i assms len False by (cases "i = Suc n") (auto simp: filled_table_nth nth_list_update)
  qed
qed

lemma address_description_quiet:
  assumes "k \<le> MAX_SYMBOLS"
  shows "format_symbol quiet_platform room (4 * k) None None 0 = Ok (address_description k)"
proof -
  have "length (address_description k) \<le> 7"
    using assms by (rule length_address_description)
  then show ?thesis
    by (simp add: format_symbol_def quiet_platform_def example_platform_def snprintf_def
        address_description_def STRING_MAX_def)
qed

lemma quiet_alloc: "malloc_ok quiet_platform" "calloc_ok quiet_platform"
  by (simp_all add: quiet_platform_def example_platform_def)

lemma add_to_cache_at_hash:
  assumes "symbols s = Some tab" and "total_symbols s < MAX_SYMBOLS"
    and "symbol (tab ! hash addr) = 0"
  shows "symbol_string_add_to_cache p s str addr
           = Some (Ok (s\<lparr>total_symbols := total_symbols s + 1,
                          symbols := Some (tab[hash addr := \<lparr>symbol = addr, string = str\<rparr>]),
                          string_buf_pos := string_buf_pos s + length str + 1\<rparr>))"
  using assms by (simp add: symbol_string_add_to_cache_def Let_def find_empty_slot_here)

lemma add_to_cache_fresh:
  assumes "symbols s = None" and "calloc_ok p" and "total_symbols s < MAX_SYMBOLS"
  shows "symbol_string_add_to_cache p s str addr
           = Some (Ok (s\<lparr>total_symbols := total_symbols s + 1,
                          symbols := Some ((replicate MAX_SYMBOLS \<lparr>symbol = 0, string = []\<rparr>)
                                             [hash addr := \<lparr>symbol = addr, string = str\<rparr>]),
                          string_buf_pos := string_buf_pos s + length str + 1\<rparr>))"
  using assms hash_lt [of addr]
  by (simp add: symbol_string_add_to_cache_def Let_def find_empty_slot_here)

lemma fill_step:
  assumes "0 < n" "n < MAX_SYMBOLS"
  shows "debug_get_symbol_string quiet_platform (filled_cache n) (4 * Suc n) None None 0
           = Some (Ok (Some (address_description (Suc n)), filled_cache (Suc n)))"
proof -
  let ?a = "4 * Suc n"
  let ?slot = "Suc n mod MAX_SYMBOLS"
  let ?e = "\<lparr>symbol = ?a, string = address_description (Suc n)\<rparr>"
  have slot: "hash ?a = ?slot"
    by (simp add: hash_def)
  have lt: "?slot < MAX_SYMBOLS"
    by (simp add: MAX_SYMBOLS_def)
  have empty: "symbol (filled_table n ! ?slot) = 0"
    using assms by (cases "Suc n = MAX_SYMBOLS") (simp_all add: filled_table_nth lt)
  have "from_cache_loop (filled_table n) ?a ?slot = Some None"
    using empty by (rule from_cache_loop_empty)
  then have miss: "symbol_string_from_cache (filled_cache n) ?a = Some None"
    unfolding symbol_string_from_cache_def slot by (simp add: filled_cache_def)
  have pos: "string_buf_pos (filled_cache n) + STRING_MAX < STRING_BUF_SIZE"
    using filled_pos [of n] assms
    by (simp add: filled_cache_def STRING_MAX_def STRING_BUF_SIZE_def KiB_def MAX_SYMBOLS_def)
  have buf: "string_buf (filled_cache n)"
    by (simp add: filled_cache_def)
  have resolve: "resolve_unknown quiet_platform ?a None None 0 = (None, None, 0)"
    by (simp add: resolve_unknown_def quiet_platform_def)
  have format: "format_symbol quiet_platform room ?a None None 0 = Ok (address_description (Suc n))"
    for room
    using assms by (intro address_description_quiet) simp
  have build: "symbol_string_build quiet_platform (filled_cache n) ?a None None 0
                 = Ok (Some (address_description (Suc n)), filled_cache n)"
    using pos buf by (simp add: symbol_string_build_def resolve format del: mult_Suc_right)
  have table: "symbols (filled_cache n) = Some (filled_table n)"
    and total: "total_symbols (filled_cache n) < MAX_SYMBOLS"
    using assms by (simp_all add: filled_cache_def)
  have empty': "symbol (filled_table n ! hash ?a) = 0"
    unfolding slot by (rule empty)
  have "filled_cache n
          \<lparr>total_symbols := total_symbols (filled_cache n) + 1,
           symbols := Some ((filled_table n)[hash ?a := ?e]),
           string_buf_pos := string_buf_pos (filled_cache n) + length (address_description (Suc n)) + 1\<rparr>
        = filled_cache (Suc n)"
    unfolding slot filled_table_update [OF assms(2)] by (simp add: filled_cache_def)
  then have add: "symbol_string_add_to_cache quiet_platform (filled_cache n) (address_description (Suc n)) ?a
               = Some (Ok (filled_cache (Suc n)))"
    using add_to_cache_at_hash [OF table total empty', of quiet_platform "address_description (Suc n)"]
    by simp
  show ?thesis
    by (simp only: debug_get_symbol_string_def miss build add option.case result.case prod.case)
qed

lemma fill_first:
  "debug_get_symbol_string quiet_platform symbol_cache_init 4 None None 0
           = Some (Ok (Some (address_description 1), filled_cache 1))"
proof -
  have table: "(replicate MAX_SYMBOLS \<lparr>symbol = 0, string = []\<rparr>)[1 := \<lparr>symbol = 4, string = address_description 1\<rparr>]
          = filled_table 1"
  proof (rule nth_equalityI)
    show "length ((replicate MAX_SYMBOLS \<lparr>symbol = 0, string = []\<rparr>)[1 := \<lparr>symbol = 4, string = address_description 1\<rparr>])
            = length (filled_table 1)"
      by (simp add: filled_table_def)
  next
    fix i
    assume "i < length ((replicate MAX_SYMBOLS \<lparr>symbol = 0, string = []\<rparr>)[1 := \<lparr>symbol = 4, string = address_description 1\<rparr>])"
    then have "i < MAX_SYMBOLS"
      by simp
    then show "(replicate MAX_SYMBOLS \<lparr>symbol = 0, string = []\<rparr>)[1 := \<lparr>symbol = 4, string = address_description 1\<rparr>] ! i
            = filled_table 1 ! i"
      by (cases "i = 1") (auto simp: filled_table_nth nth_list_update MAX_SYMBOLS_def)
  qed
  have miss: "symbol_string_from_cache symbol_cache_init 4 = Some None"
    by (simp add: symbol_string_from_cache_def symbol_cache_init_def)
  have resolve: "resolve_unknown quiet_platform 4 None None 0 = (None, None, 0)"
    by (simp add: resolve_unknown_def quiet_platform_def)
  have format: "format_symbol quiet_platform room 4 None None 0 = Ok (address_description 1)"
    for room
    using address_description_quiet [of 1 room] by (simp add: MAX_SYMBOLS_def)
  have build: "symbol_string_build quiet_platform symbol_cache_init 4 None None 0
                 = Ok (Some (address_description 1), symbol_cache_init\<lparr>string_buf := True, string_buf_pos := 0\<rparr>)"
    by (simp add: symbol_string_build_def resolve format symbol_cache_init_def quiet_alloc
        STRING_MAX_def STRING_BUF_SIZE_def KiB_def)
  have slot: "hash 4 = 1"
    by (simp add: hash_def MAX_SYMBOLS_def)
  let ?s = "symbol_cache_init\<lparr>string_buf := True, string_buf_pos := 0\<rparr>"
  have "?s\<lparr>total_symbols := total_symbols ?s + 1,
           symbols := Some ((replicate MAX_SYMBOLS \<lparr>symbol = 0, string = []\<rparr>)
                              [hash 4 := \<lparr>symbol = 4, string = address_description 1\<rparr>]),
           string_buf_pos := string_buf_pos ?s + length (address_description 1) + 1\<rparr>
        = filled_cache 1"
    unfolding slot table by (simp add: filled_cache_def symbol_cache_init_def)
  moreover have "symbols ?s = None" "total_symbols ?s < MAX_SYMBOLS"
    by (simp_all add: symbol_cache_init_def MAX_SYMBOLS_def)
  ultimately have add: "symbol_string_add_to_cache quiet_platform ?s (address_description 1) 4
               = Some (Ok (filled_cache 1))"
    using add_to_cache_fresh [of ?s quiet_platform "address_description 1" 4] quiet_alloc by simp
  show ?thesis
    by (simp only: debug_get_symbol_string_def miss build add option.case result.case prod.case)
qed

lemma fill_from:
  assumes "0 < n" "n + m \<le> MAX_SYMBOLS"
  shows "get_symbol_strings quiet_platform (filled_cache n) (map (\<lambda>k. 4 * k) [Suc n..<Suc (n + m)])
           = Some (filled_cache (n + m))"
  using assms
proof (induction m arbitrary: n)
  case 0
  then show ?case by simp
next
  case (Suc m)
  have split: "[Suc n..<Suc (n + Suc m)] = Suc n # [Suc (Suc n)..<Suc (Suc n + m)]"
    by (simp add: upt_conv_Cons)
  have rest: "get_symbol_strings quiet_platform (filled_cache (Suc n))
                   (map (\<lambda>k. 4 * k) [Suc (Suc n)..<Suc (Suc n + m)]) = Some (filled_cache (Suc n + m))"
    using Suc.prems by (intro Suc.IH) simp_all
  have step: "debug_get_symbol_string quiet_platform (filled_cache n) (4 * Suc n) None None 0
           = Some (Ok (Some (address_description (Suc n)), filled_cache (Suc n)))"
    using Suc.prems by (intro fill_step) simp_all
  show ?case
    unfolding split list.map get_symbol_strings.simps step using rest by simp
qed

lemma full_table_reachable:
  "get_symbol_strings quiet_platform symbol_cache_init (map (\<lambda>k. 4 * k) [1..<Suc MAX_SYMBOLS])
     = Some (filled_cache MAX_SYMBOLS)"
proof -
  have pos: "0 < MAX_SYMBOLS"
    by (simp add: MAX_SYMBOLS_def)
  have split: "[1..<Suc MAX_SYMBOLS] = 1 # [Suc 1..<Suc (1 + (MAX_SYMBOLS - 1))]"
    using pos by (simp add: upt_conv_Cons)
  have rest: "get_symbol_strings quiet_platform (filled_cache 1)
                   (map (\<lambda>k. 4 * k) [Suc 1..<Suc (1 + (MAX_SYMBOLS - 1))])
                 = Some (filled_cache (1 + (MAX_SYMBOLS - 1)))"
    using pos by (intro fill_from) simp_all
  have first: "debug_get_symbol_string quiet_platform symbol_cache_init (4 * 1) None None 0
           = Some (Ok (Some (address_description 1), filled_cache 1))"
    using fill_first by simp
  have "1 + (MAX_SYMBOLS - 1) = MAX_SYMBOLS"
    using pos by simp
  then show ?thesis
    unfolding split list.map get_symbol_strings.simps first using rest by simp
qed

lemma filled_table_full:
  "\<forall>i<MAX_SYMBOLS. symbol (filled_table MAX_SYMBOLS ! i) \<noteq> 0
       \<and> symbol (filled_table MAX_SYMBOLS ! i) \<noteq> 4 * MAX_SYMBOLS + 4"
  by (auto simp: filled_table_nth MAX_SYMBOLS_def)

lemma cached_lookup_in_full_table:
  assumes "0 < k" "k \<le> MAX_SYMBOLS"
  shows "debug_get_symbol_string p (filled_cache MAX_SYMBOLS) (4 * k) name file line
           = Some (Ok (Some (address_description k), filled_cache MAX_SYMBOLS))"
proof -
  have slot: "hash (4 * k) = k mod MAX_SYMBOLS"
    by (simp add: hash_def)
  have lt: "k mod MAX_SYMBOLS < MAX_SYMBOLS"
    by (simp add: MAX_SYMBOLS_def)
  have entry: "filled_table MAX_SYMBOLS ! (k mod MAX_SYMBOLS) = \<lparr>symbol = 4 * k, string = address_description k\<rparr>"
    using assms by (cases "k = MAX_SYMBOLS") (simp_all add: filled_table_nth lt)
  have "from_cache_loop (filled_table MAX_SYMBOLS) (4 * k) (k mod MAX_SYMBOLS)
          = Some (Some (address_description k))"
    using from_cache_loop_found [of "filled_table MAX_SYMBOLS" "k mod MAX_SYMBOLS" "4 * k"] assms(1)
    by (simp add: entry)
  then have "symbol_string_from_cache (filled_cache MAX_SYMBOLS) (4 * k) = Some (Some (address_description k))"
    unfolding symbol_string_from_cache_def slot by (simp add: filled_cache_def)
  then show ?thesis
    by (simp only: debug_get_symbol_string_def option.case)
qed

text \<open>
  C6. With a full table, a call on an address that is not cached is meant to return a
  freshly built string. \<^verbatim>\<open>symbol_string_add_to_cache\<close> guards its probe loop against
  the full table (\<open>total_symbols >= MAX_SYMBOLS\<close>), but the lookup in
  \<^verbatim>\<open>symbol_string_from_cache\<close>, which runs first, has no such guard: when every slot is
  occupied and none holds the address, the loop finds neither an empty slot nor the
  address and never exits, so the call does not return. Such a table arises from calls
  on \<open>MAX_SYMBOLS\<close> distinct addresses (\<open>full_table_reachable\<close>); the cached addresses
  are still found (\<open>cached_lookup_in_full_table\<close>).
\<close>

theorem lookup_in_full_table_never_returns:
  assumes "symbols s = Some tab"
    and "\<forall>i<MAX_SYMBOLS. symbol (tab ! i) \<noteq> 0 \<and> symbol (tab ! i) \<noteq> addr"
  shows "debug_get_symbol_string p s addr name file line = None"
  using assms from_cache_loop_full [OF assms(2) hash_lt]
  by (simp add: debug_get_symbol_string_def symbol_string_from_cache_def)

theorem lookup_in_full_table_never_returns_witness:
  "get_symbol_strings quiet_platform symbol_cache_init (map (\<lambda>k. 4 * k) [1..<Suc MAX_SYMBOLS])
     = Some (filled_cache MAX_SYMBOLS)
   \<and> symbols (filled_cache MAX_SYMBOLS) = Some (filled_table MAX_SYMBOLS)
   \<and> list_all (\<lambda>c. symbol c \<noteq> 0 \<and> symbol c \<noteq> 4 * MAX_SYMBOLS + 4) (filled_table MAX_SYMBOLS)
   \<and> debug_get_symbol_string quiet_platform (filled_cache MAX_SYMBOLS) (4 * MAX_SYMBOLS + 4)
         None None 0 = None"
proof -
  have table: "symbols (filled_cache MAX_SYMBOLS) = Some (filled_table MAX_SYMBOLS)"
    by (simp add: filled_cache_def)
  have "length (filled_table MAX_SYMBOLS) = MAX_SYMBOLS"
    by (simp add: filled_table_def)
  then have all: "list_all (\<lambda>c. symbol c \<noteq> 0 \<and> symbol c \<noteq> 4 * MAX_SYMBOLS + 4)
                    (filled_table MAX_SYMBOLS)"
    using filled_table_full by (simp add: list_all_length)
  show ?thesis
    using full_table_reachable table all
      lookup_in_full_table_never_returns [OF table filled_table_full, of quiet_platform None None 0]
    by blast
qed

text \<open>
  C5, as stated, fails: when fewer than \<open>STRING_MAX\<close> bytes of the string buffer are left,
  a call on an address that is not cached does not return a description. It returns the
  null pointer.
\<close>

theorem arena_exhausted_counterexample:
  "debug_get_symbol_string example_platform exhausted_cache 284
       (Some ''main'') (Some ''/src/main.cpp'') 10
     = Some (Ok (None, exhausted_cache\<lparr>warnings := [ERR_LIMIT]\<rparr>))"
proof -
  have "symbol_string_from_cache exhausted_cache 284 = Some None"
    by (simp add: symbol_string_from_cache_def exhausted_cache_def hash_def MAX_SYMBOLS_def
        from_cache_loop_empty)
  then show ?thesis
    by (simp add: debug_get_symbol_string_def symbol_string_build_def exhausted_cache_def
        STRING_MAX_def STRING_BUF_SIZE_def KiB_def)
qed

text \<open>
  C5, amended. When the string buffer is allocated and \<open>string_buf_pos + STRING_MAX\<close>
  reaches \<open>STRING_BUF_SIZE\<close>, a call on an address that is not cached raises the
  \<open>ERR_LIMIT\<close> warning and returns the null pointer; nothing is built or cached, and the
  state is otherwise unchanged.
\<close>

theorem arena_exhausted_returns_null:
  assumes "symbol_string_from_cache s addr = Some None"
    and "string_buf s" and "string_buf_pos s + STRING_MAX \<ge> STRING_BUF_SIZE"
  shows "debug_get_symbol_string p s addr name file line
           = Some (Ok (None, s\<lparr>warnings := warnings s @ [ERR_LIMIT]\<rparr>))"
  using assms
  by (simp add: debug_get_symbol_string_def symbol_string_build_def)

theorem arena_exhausted_returns_null_witness:
  "symbol_string_from_cache exhausted_cache 288 = Some None
   \<and> string_buf exhausted_cache
   \<and> string_buf_pos exhausted_cache + STRING_MAX \<ge> STRING_BUF_SIZE
   \<and> debug_get_symbol_string quiet_platform exhausted_cache 288 None None 0
       = Some (Ok (None, exhausted_cache\<lparr>warnings := warnings exhausted_cache @ [ERR_LIMIT]\<rparr>))"
proof -
  have miss: "symbol_string_from_cache exhausted_cache 288 = Some None"
    by (simp add: symbol_string_from_cache_def exhausted_cache_def hash_def MAX_SYMBOLS_def
        from_cache_loop_empty)
  have buf: "string_buf exhausted_cache"
    by (simp add: exhausted_cache_def)
  have full: "string_buf_pos exhausted_cache + STRING_MAX \<ge> STRING_BUF_SIZE"
    by (simp add: exhausted_cache_def STRING_MAX_def STRING_BUF_SIZE_def KiB_def)
  show ?thesis
    using miss buf full arena_exhausted_returns_null [OF miss buf full, of quiet_platform None None 0]
    by blast
qed







end
